theory Spec2Isabelle
  imports Complex_Main
begin

section \<open>Python floats (IEEE 754 binary64, round to nearest, ties to even)\<close>

text \<open>
  The message fields \<^verbatim>\<open>claim_amount\<close>, \<^verbatim>\<open>approved_amount\<close>, \<^verbatim>\<open>deduction\<close> and
  \<^verbatim>\<open>paid_amount\<close> are Python \<^verbatim>\<open>float\<close>s. A finite float is a sign, a significand and an
  exponent: \<open>Finite s m e\<close> stands for \<open>(-1)^s * m * 2^e\<close>. The representable ones have
  \<open>m < 2^53\<close> and \<open>-1074 \<le> e \<le> 971\<close>. The sign is \<open>True\<close> for a negative number.
\<close>

datatype pyfloat = Finite bool nat int | Infinite bool | NaN

definition is_float :: "pyfloat \<Rightarrow> bool" where
  "is_float x =
     (case x of Finite s m e \<Rightarrow> m < 2 ^ 53 \<and> - 1074 \<le> e \<and> e \<le> 971 | _ \<Rightarrow> True)"

definition is_finite :: "pyfloat \<Rightarrow> bool" where
  "is_finite x = (case x of Finite s m e \<Rightarrow> True | _ \<Rightarrow> False)"

text \<open>The number of binary digits of a natural number (Python's \<^verbatim>\<open>int.bit_length\<close>).\<close>

fun bit_length :: "nat \<Rightarrow> nat" where
  "bit_length n = (if n = 0 then 0 else Suc (bit_length (n div 2)))"

declare bit_length.simps [simp del]

text \<open>
  A rounded result whose exponent is above the largest one overflows to infinity; one
  that was rounded down to nothing is a zero of the same sign.
\<close>

definition pack :: "bool \<Rightarrow> nat \<Rightarrow> int \<Rightarrow> pyfloat" where
  "pack s m e = (if m = 0 then Finite s 0 0 else if e > 971 then Infinite s else Finite s m e)"

text \<open>
  \<open>round_float s M E\<close> is the float nearest to the exact value \<open>(-1)^s * M * 2^E\<close>, ties
  going to the even significand. The exponent of the result is chosen so that the
  significand has at most 53 bits and is never below the subnormal exponent \<open>-1074\<close>.
\<close>

definition round_float :: "bool \<Rightarrow> nat \<Rightarrow> int \<Rightarrow> pyfloat" where
  "round_float s M E =
     (if M = 0 then Finite s 0 0
      else
        let e' = max (E + int (bit_length M) - 53) (- 1074) in
        if e' \<le> E then pack s (M * 2 ^ nat (E - e')) e'
        else
          let d = nat (e' - E);
              q = M div 2 ^ d;
              r = M mod 2 ^ d;
              half = 2 ^ (d - 1);
              m = (if (if r = half then odd q else half < r) then q + 1 else q)
          in if m = 2 ^ 53 then pack s (2 ^ 52) (e' + 1) else pack s m e')"

definition float_neg :: "pyfloat \<Rightarrow> pyfloat" where
  "float_neg x =
     (case x of Finite s m e \<Rightarrow> Finite (\<not> s) m e | Infinite s \<Rightarrow> Infinite (\<not> s) | NaN \<Rightarrow> NaN)"

text \<open>The signed integer \<open>(-1)^s * m * 2^(e - e0)\<close>, for an exponent \<open>e0 \<le> e\<close>.\<close>

definition scaled :: "bool \<Rightarrow> nat \<Rightarrow> int \<Rightarrow> int \<Rightarrow> int" where
  "scaled s m e e0 = (if s then - (int m * 2 ^ nat (e - e0)) else int m * 2 ^ nat (e - e0))"

text \<open>
  Python's \<^verbatim>\<open>x + y\<close> on floats. An exact sum of zero is \<open>+0.0\<close> unless both operands
  are negative.
\<close>

fun float_add :: "pyfloat \<Rightarrow> pyfloat \<Rightarrow> pyfloat" where
  "float_add NaN y = NaN"
| "float_add x NaN = NaN"
| "float_add (Infinite s1) (Infinite s2) = (if s1 = s2 then Infinite s1 else NaN)"
| "float_add (Infinite s1) (Finite s2 m2 e2) = Infinite s1"
| "float_add (Finite s1 m1 e1) (Infinite s2) = Infinite s2"
| "float_add (Finite s1 m1 e1) (Finite s2 m2 e2) =
     (let e0 = min e1 e2;
          i = scaled s1 m1 e1 e0 + scaled s2 m2 e2 e0
      in if i = 0 then Finite (s1 \<and> s2) 0 0 else round_float (i < 0) (nat \<bar>i\<bar>) e0)"

text \<open>Python's \<^verbatim>\<open>x - y\<close> on floats.\<close>

definition float_sub :: "pyfloat \<Rightarrow> pyfloat \<Rightarrow> pyfloat" where
  "float_sub x y = float_add x (float_neg y)"

text \<open>Python's \<^verbatim>\<open>x * y\<close> on floats.\<close>

fun float_mul :: "pyfloat \<Rightarrow> pyfloat \<Rightarrow> pyfloat" where
  "float_mul NaN y = NaN"
| "float_mul x NaN = NaN"
| "float_mul (Infinite s1) (Infinite s2) = Infinite (s1 \<noteq> s2)"
| "float_mul (Infinite s1) (Finite s2 m2 e2) = (if m2 = 0 then NaN else Infinite (s1 \<noteq> s2))"
| "float_mul (Finite s1 m1 e1) (Infinite s2) = (if m1 = 0 then NaN else Infinite (s1 \<noteq> s2))"
| "float_mul (Finite s1 m1 e1) (Finite s2 m2 e2) = round_float (s1 \<noteq> s2) (m1 * m2) (e1 + e2)"

text \<open>
  Python's \<^verbatim>\<open>x == y\<close> and \<^verbatim>\<open>x <= y\<close> on floats: comparisons of the numbers, so that
  \<open>-0.0 == 0.0\<close>, and every comparison with NaN is false.
\<close>

fun float_eq :: "pyfloat \<Rightarrow> pyfloat \<Rightarrow> bool" where
  "float_eq (Finite s1 m1 e1) (Finite s2 m2 e2) =
     (scaled s1 m1 e1 (min e1 e2) = scaled s2 m2 e2 (min e1 e2))"
| "float_eq (Infinite s1) (Infinite s2) = (s1 = s2)"
| "float_eq x y = False"

fun float_le :: "pyfloat \<Rightarrow> pyfloat \<Rightarrow> bool" where
  "float_le (Finite s1 m1 e1) (Finite s2 m2 e2) =
     (scaled s1 m1 e1 (min e1 e2) \<le> scaled s2 m2 e2 (min e1 e2))"
| "float_le (Infinite s1) (Infinite s2) = (if s2 then s1 else True)"
| "float_le (Infinite s1) (Finite s2 m2 e2) = s1"
| "float_le (Finite s1 m1 e1) (Infinite s2) = (\<not> s2)"
| "float_le x y = False"

text \<open>
  The literals of the source. \<^verbatim>\<open>0\<close> stored in a float field is \<open>0.0\<close>; \<^verbatim>\<open>0.2\<close> is the
  float nearest to one fifth, \<open>0x1.999999999999ap-3\<close>; \<^verbatim>\<open>1000.0\<close> is exact.
\<close>

definition float_zero :: pyfloat where
  "float_zero = Finite False 0 0"

definition float_0_2 :: pyfloat where
  "float_0_2 = Finite False 7205759403792794 (- 55)"

definition float_1000 :: pyfloat where
  "float_1000 = Finite False 1000 0"

text \<open>
  The real number that a finite float stands for, to state what the operations do: \<open>pow2 e\<close>
  is \<open>2\<close> to the power \<open>e\<close>, for any integer \<open>e\<close>.
\<close>

definition pow2 :: "int \<Rightarrow> real" where
  "pow2 e = 2 powi e"

definition valof :: "pyfloat \<Rightarrow> real" where
  "valof x = (case x of Finite s m e \<Rightarrow> (if s then - 1 else 1) * real m * pow2 e | _ \<Rightarrow> 0)"

section \<open>Damage assessor (damage\_verifier.py)\<close>

record DamageRequest =
  before_image :: string
  after_image :: string
  claim_amount :: pyfloat
  policy_id :: string

record DamageResponse =
  decision :: string
  approved_amount :: pyfloat
  deduction :: pyfloat
  policy_id :: string

text \<open>
  The handler \<^verbatim>\<open>verify_damage\<close>: the response it builds, which it sends to the sender of
  the request. The log lines are left out.
\<close>

definition verify_damage :: "DamageRequest \<Rightarrow> DamageResponse" where
  "verify_damage msg =
     (if before_image msg = after_image msg then
        \<lparr> decision = ''full_payout'',
          approved_amount = claim_amount msg,
          deduction = float_zero,
          policy_id = DamageRequest.policy_id msg \<rparr>
      else
        let deduction = float_mul (claim_amount msg) float_0_2;
            approved_amount = float_sub (claim_amount msg) deduction
        in \<lparr> decision = ''deduct_payout'',
             approved_amount = approved_amount,
             deduction = deduction,
             policy_id = DamageRequest.policy_id msg \<rparr>)"

section \<open>Payment processor (payment\_processor.py)\<close>

record PaymentRequest =
  decision :: string
  approved_amount :: pyfloat
  policy_id :: string

record PaymentResponse =
  policy_id :: string
  decision :: string
  paid_amount :: pyfloat
  transaction_id :: string
  status :: string

text \<open>Python's \<^verbatim>\<open>str\<close> of an integer, as the f-string of the transaction id formats it.\<close>

definition digit_char :: "nat \<Rightarrow> char" where
  "digit_char d = char_of (48 + d)"

fun str_nat :: "nat \<Rightarrow> string" where
  "str_nat n = (if n < 10 then [digit_char n] else str_nat (n div 10) @ [digit_char (n mod 10)])"

declare str_nat.simps [simp del]

definition str_int :: "int \<Rightarrow> string" where
  "str_int i = (if i < 0 then CHR ''-'' # str_nat (nat (- i)) else str_nat (nat i))"

text \<open>
  \<^verbatim>\<open>random.randint(a, b)\<close> belongs to the standard library: all that is known of the
  integer \<open>r\<close> it returns is \<open>a \<le> r \<le> b\<close>.
\<close>

definition randint :: "int \<Rightarrow> int \<Rightarrow> int \<Rightarrow> bool" where
  "randint a b r = (a \<le> r \<and> r \<le> b)"

text \<open>
  The handler \<^verbatim>\<open>process_payment\<close>: the response it sends back, for the integer \<open>r\<close>
  that \<^verbatim>\<open>random.randint(100000, 999999)\<close> returned. \<^verbatim>\<open>paid_amount = 0\<close> is stored in a
  float field.
\<close>

definition process_payment :: "int \<Rightarrow> PaymentRequest \<Rightarrow> PaymentResponse" where
  "process_payment r msg =
     (let txn_id = ''TXN_'' @ str_int r;
          (paid_amount, status) =
            (if PaymentRequest.decision msg = ''full_payout'' then
               (PaymentRequest.approved_amount msg, ''completed'')
             else if PaymentRequest.decision msg = ''deduct_payout'' then
               (PaymentRequest.approved_amount msg, ''completed'')
             else if PaymentRequest.decision msg = ''error'' then
               (float_zero, ''failed'')
             else
               (float_zero, ''rejected''))
      in \<lparr> policy_id = PaymentRequest.policy_id msg,
           decision = PaymentRequest.decision msg,
           paid_amount = paid_amount,
           transaction_id = txn_id,
           status = status \<rparr>)"

text \<open>Reading a decimal numeral back, to say which integer a transaction id carries.\<close>

definition digit_val :: "char \<Rightarrow> nat" where
  "digit_val c = of_char c - 48"

definition is_digit :: "char \<Rightarrow> bool" where
  "is_digit c = (48 \<le> (of_char c :: nat) \<and> (of_char c :: nat) \<le> 57)"

definition parse_nat :: "string \<Rightarrow> nat" where
  "parse_nat cs = foldl (\<lambda>a c. 10 * a + digit_val c) 0 cs"

section \<open>Agents and the orchestrating client (client.py)\<close>

text \<open>
  An agent of the messaging framework, with the arguments it is constructed with. The
  framework derives the address of an agent from its seed alone.
\<close>

record agent =
  name :: string
  seed :: string
  port :: nat
  endpoint :: "string list"

datatype address = Address_of_seed string

definition address :: "agent \<Rightarrow> address" where
  "address a = Address_of_seed (seed a)"

type_synonym environ = "string \<rightharpoonup> string"

text \<open>
  The agents that the three modules construct when they are loaded in a process with the
  environment \<open>env\<close> (after \<^verbatim>\<open>load_dotenv()\<close>).
\<close>

definition damage_agent :: "environ \<Rightarrow> agent" where
  "damage_agent env =
     \<lparr> name = ''DamageVerifier'', seed = ''damage_verifier_seed_12345_unique'',
       port = 8000, endpoint = [''http://localhost:8000/submit''] \<rparr>"

definition payment_agent :: "environ \<Rightarrow> agent" where
  "payment_agent env =
     \<lparr> name = ''PaymentProcessor'', seed = ''payment_processor_seed_67890_unique'',
       port = 8001, endpoint = [''http://localhost:8001/submit''] \<rparr>"

definition client_agent :: "environ \<Rightarrow> agent" where
  "client_agent env =
     \<lparr> name = ''TestClient'', seed = ''client_seed_phrase_abcde_unique'',
       port = 8003, endpoint = [''http://localhost:8003/submit''] \<rparr>"

text \<open>The two module-level variables of the client, both \<^verbatim>\<open>None\<close> at the start.\<close>

record client_state =
  damage_response :: "DamageResponse option"
  payment_response :: "PaymentResponse option"

definition client_init :: client_state where
  "client_init = \<lparr> damage_response = None, payment_response = None \<rparr>"

text \<open>
  What a handler of the client does besides updating the two variables: it sends a message
  to an address, or prints the final result (policy id, status, paid amount, transaction
  id). The log lines are left out.
\<close>

datatype effect =
    Send_DamageRequest address DamageRequest
  | Send_PaymentRequest address PaymentRequest
  | Print_result string string pyfloat string

definition payment_request :: "DamageResponse \<Rightarrow> PaymentRequest" where
  "payment_request msg =
     \<lparr> PaymentRequest.decision = DamageResponse.decision msg,
       PaymentRequest.approved_amount = DamageResponse.approved_amount msg,
       PaymentRequest.policy_id = DamageResponse.policy_id msg \<rparr>"

definition handle_damage_response ::
  "environ \<Rightarrow> client_state \<Rightarrow> DamageResponse \<Rightarrow> client_state \<times> effect list" where
  "handle_damage_response env st msg =
     (st \<lparr> damage_response := Some msg \<rparr>,
      [Send_PaymentRequest (address (payment_agent env)) (payment_request msg)])"

definition handle_payment_response ::
  "client_state \<Rightarrow> PaymentResponse \<Rightarrow> client_state \<times> effect list" where
  "handle_payment_response st msg =
     (st \<lparr> payment_response := Some msg \<rparr>,
      [Print_result (PaymentResponse.policy_id msg) (status msg) (paid_amount msg)
         (transaction_id msg)])"

definition damage_request :: DamageRequest where
  "damage_request =
     \<lparr> before_image = ''https://example.com/before.jpg'',
       after_image = ''https://example.com/after.jpg'',
       claim_amount = float_1000,
       DamageRequest.policy_id = ''POL-12345'' \<rparr>"

definition initiate_deposit_refund ::
  "environ \<Rightarrow> client_state \<Rightarrow> client_state \<times> effect list" where
  "initiate_deposit_refund env st =
     (st, [Send_DamageRequest (address (damage_agent env)) damage_request])"

text \<open>
  The framework calls \<^verbatim>\<open>initiate_deposit_refund\<close> at every interval and the two message
  handlers at every message of their model.
\<close>

datatype client_event =
    Interval
  | Received_DamageResponse DamageResponse
  | Received_PaymentResponse PaymentResponse

fun client_handle :: "environ \<Rightarrow> client_state \<Rightarrow> client_event \<Rightarrow> client_state \<times> effect list" where
  "client_handle env st Interval = initiate_deposit_refund env st"
| "client_handle env st (Received_DamageResponse msg) = handle_damage_response env st msg"
| "client_handle env st (Received_PaymentResponse msg) = handle_payment_response st msg"

definition client_after :: "environ \<Rightarrow> client_event list \<Rightarrow> client_state" where
  "client_after env evs = foldl (\<lambda>st ev. fst (client_handle env st ev)) client_init evs"

fun is_Send_DamageRequest :: "effect \<Rightarrow> bool" where
  "is_Send_DamageRequest (Send_DamageRequest a m) = True"
| "is_Send_DamageRequest (Send_PaymentRequest a m) = False"
| "is_Send_DamageRequest (Print_result p s a t) = False"

text \<open>
  The workflow states of the specification and its transitions: the trigger leaves
  \<open>Idle\<close>, a damage response leaves \<open>AwaitingDamage\<close>, a payment response leaves
  \<open>AwaitingPayment\<close>. The source has no such variable; this is the specification's
  reading of a history of events, to compare the trigger with.
\<close>

datatype workflow_state = Idle | AwaitingDamage | AwaitingPayment | Done

fun spec_workflow_step :: "workflow_state \<Rightarrow> client_event \<Rightarrow> workflow_state" where
  "spec_workflow_step Idle Interval = AwaitingDamage"
| "spec_workflow_step AwaitingDamage (Received_DamageResponse msg) = AwaitingPayment"
| "spec_workflow_step AwaitingPayment (Received_PaymentResponse msg) = Done"
| "spec_workflow_step st ev = st"

definition spec_workflow_after :: "client_event list \<Rightarrow> workflow_state" where
  "spec_workflow_after evs = foldl spec_workflow_step Idle evs"

section \<open>Supervision script (run\_system.py)\<close>

text \<open>
  What the script does, in order: the lines it prints (without their pictographs and
  leading blank lines), the subprocesses it asks the system to launch, its sleeps.
\<close>

datatype event = Print string | Popen string | Sleep nat

fun is_Popen :: "event \<Rightarrow> bool" where
  "is_Popen (Popen script) = True"
| "is_Popen (Print line) = False"
| "is_Popen (Sleep n) = False"

text \<open>Python's \<^verbatim>\<open>sep.join(xs)\<close>.\<close>

fun join :: "string \<Rightarrow> string list \<Rightarrow> string" where
  "join sep [] = []"
| "join sep [x] = x"
| "join sep (x # y # ys) = x @ sep @ join sep (y # ys)"

definition getenv :: "environ \<Rightarrow> string \<Rightarrow> string option" where
  "getenv env var = env var"

text \<open>\<^verbatim>\<open>not os.getenv(var)\<close>: the variable is unset, or set to the empty string.\<close>

definition not_set :: "environ \<Rightarrow> string \<Rightarrow> bool" where
  "not_set env var = (case getenv env var of None \<Rightarrow> True | Some v \<Rightarrow> v = [])"

definition check_env_vars :: "environ \<Rightarrow> event list \<times> bool" where
  "check_env_vars env =
     (let required_vars = [''AGENT_SEED''];
          missing_vars = filter (not_set env) required_vars
      in if missing_vars \<noteq> [] then
           ([Print (''Missing environment variables: '' @ join '', '' missing_vars),
             Print ''Please set them in your .env file''], False)
         else ([Print ''Environment variables are set''], True))"

text \<open>
  \<^verbatim>\<open>subprocess.Popen\<close> either raises, with some message, or returns a process, known
  here by its PID: the system's answer for each script is a parameter.
\<close>

type_synonym launcher = "string \<Rightarrow> string + nat"

definition run_agent :: "launcher \<Rightarrow> string \<Rightarrow> string \<Rightarrow> event list \<times> nat option" where
  "run_agent popen script_name agent_name =
     (case popen script_name of
        Inr pid \<Rightarrow>
          ([Print (''Starting '' @ agent_name @ ''...''), Popen script_name,
            Print (agent_name @ '' started with PID '' @ str_nat pid)], Some pid)
      | Inl e \<Rightarrow>
          ([Print (''Starting '' @ agent_name @ ''...''), Popen script_name,
            Print (''Failed to start '' @ agent_name @ '': '' @ e)], None))"

text \<open>
  \<^verbatim>\<open>main\<close>, as long as no interrupt arrives, up to its endless loop: either it leaves the
  process through \<^verbatim>\<open>sys.exit\<close>, or it goes on polling the processes it has started.
\<close>

datatype outcome = Exit nat | Monitoring "(string \<times> nat) list"

definition started :: "string \<Rightarrow> nat option \<Rightarrow> (string \<times> nat) list" where
  "started agent_name process = (case process of Some p \<Rightarrow> [(agent_name, p)] | None \<Rightarrow> [])"

definition main :: "environ \<Rightarrow> launcher \<Rightarrow> event list \<times> outcome" where
  "main env popen =
     (let banner = [Print ''Working Security Deposit Refund System'', Print (replicate 45 CHR ''='')];
          (checked, ok) = check_env_vars env
      in if \<not> ok then (banner @ checked, Exit 1)
         else
           let (out1, damage_process) = run_agent popen ''damage_verifier.py'' ''DamageVerifier'';
               processes1 = started ''DamageVerifier'' damage_process;
               (out2, payment_process) = run_agent popen ''payment_processor.py'' ''PaymentProcessor'';
               processes = processes1 @ started ''PaymentProcessor'' payment_process
           in (banner @ checked @ out1 @ [Sleep 2] @ out2 @ [Sleep 2]
                 @ [Print ''All agents are running!'', Print ''Available agents:'']
                 @ map (\<lambda>(agent_name, p). Print (''  - '' @ agent_name)) processes
                 @ [Print ''To test the system:'', Print ''   python client.py'',
                    Print ''Press Ctrl+C to stop all agents''],
               Monitoring processes))"

section \<open>Example inputs\<close>

definition same_images :: DamageRequest where
  "same_images =
     \<lparr> before_image = ''https://example.com/before.jpg'',
       after_image = ''https://example.com/before.jpg'',
       claim_amount = float_1000,
       DamageRequest.policy_id = ''POL-12345'' \<rparr>"

definition pay :: "string \<Rightarrow> PaymentRequest" where
  "pay d = \<lparr> PaymentRequest.decision = d, PaymentRequest.approved_amount = float_1000,
             PaymentRequest.policy_id = ''POL-12345'' \<rparr>"

text \<open>The demo request of the client with another claim amount; 1.89; minus infinity.\<close>

definition claim_of :: "pyfloat \<Rightarrow> DamageRequest" where
  "claim_of c = damage_request \<lparr> claim_amount := c \<rparr>"

definition float_1_89 :: pyfloat where
  "float_1_89 = Finite False 8511803295730237 (- 52)"

definition float_neg_inf :: pyfloat where
  "float_neg_inf = Infinite True"

text \<open>A request with equal images and a payment request, both with the amount NaN.\<close>

definition same_images_nan :: DamageRequest where
  "same_images_nan = same_images \<lparr> claim_amount := NaN \<rparr>"

definition pay_nan :: PaymentRequest where
  "pay_nan = \<lparr> PaymentRequest.decision = ''full_payout'', PaymentRequest.approved_amount = NaN,
               PaymentRequest.policy_id = ''POL-12345'' \<rparr>"

section \<open>Evaluating the float operations\<close>

lemma bit_length_0 [simp]: "bit_length 0 = 0"
  by (subst bit_length.simps) simp

lemma bit_length_1 [simp]: "bit_length (Suc 0) = Suc 0"
  by (subst bit_length.simps) simp

lemma bit_length_numeral [simp]:
  "bit_length (numeral k) = Suc (bit_length (numeral k div 2))"
  by (subst bit_length.simps) simp

lemma float_mul_1000: "float_mul float_1000 float_0_2 = Finite False 7036874417766400 (- 45)"
  by (simp add: float_1000_def float_0_2_def round_float_def pack_def Let_def)

lemma float_sub_1000:
  "float_sub float_1000 (Finite False 7036874417766400 (- 45)) = Finite False 7036874417766400 (- 43)"
  by (simp add: float_1000_def float_sub_def float_neg_def scaled_def round_float_def pack_def
      Let_def)

lemma float_add_1000_zero: "float_add float_1000 float_zero = Finite False 8796093022208000 (- 43)"
  by (simp add: float_1000_def float_zero_def scaled_def round_float_def pack_def Let_def)

lemma claim_of_simps [simp]:
  "before_image (claim_of c) \<noteq> after_image (claim_of c)" "claim_amount (claim_of c) = c"
  by (simp_all add: claim_of_def damage_request_def)

lemma float_mul_1_89: "float_mul float_1_89 float_0_2 = Finite False 6809442636584190 (- 54)"
  by (simp add: float_1_89_def float_0_2_def round_float_def pack_def Let_def)

lemma float_sub_1_89:
  "float_sub float_1_89 (Finite False 6809442636584190 (- 54)) = Finite False 6809442636584190 (- 52)"
  by (simp add: float_1_89_def float_sub_def float_neg_def scaled_def round_float_def pack_def Let_def)

lemma float_add_1_89:
  "float_add (Finite False 6809442636584190 (- 52)) (Finite False 6809442636584190 (- 54))
     = Finite False 8511803295730238 (- 52)"
  by (simp add: scaled_def round_float_def pack_def Let_def)

section \<open>Powers of two and the value of a float\<close>

lemma pow2_pos [simp]: "0 < pow2 e"
  by (simp add: pow2_def)

lemma pow2_nonneg [simp]: "0 \<le> pow2 e"
  by (simp add: pow2_def)

lemma pow2_not_le0 [simp]: "\<not> pow2 e \<le> 0"
  by (simp add: not_le)

lemma pow2_not_less0 [simp]: "\<not> pow2 e < 0"
  by (simp add: not_less)

lemma pow2_neq0 [simp]: "pow2 e \<noteq> 0"
  by (simp add: pow2_def)

lemma pow2_add: "pow2 (a + b) = pow2 a * pow2 b"
  by (simp add: pow2_def power_int_add)

lemma pow2_nat: "pow2 (int n) = 2 ^ n"
  by (simp add: pow2_def)

lemma pow2_mono: "a \<le> b \<Longrightarrow> pow2 a \<le> pow2 b"
  by (simp add: pow2_def power_int_increasing)

lemma pow2_less_cancel: "pow2 a < pow2 b \<Longrightarrow> a < b"
  using pow2_mono [of b a] by (cases "a < b") simp_all

lemma pow2_split: "e0 \<le> e \<Longrightarrow> 2 ^ nat (e - e0) * pow2 e0 = pow2 e"
proof -
  assume "e0 \<le> e"
  then have "pow2 (int (nat (e - e0))) * pow2 e0 = pow2 e"
    by (simp add: pow2_add [symmetric])
  then show ?thesis by (simp only: pow2_nat)
qed

lemma scaled_real:
  assumes "e0 \<le> e"
  shows "real_of_int (scaled s m e e0) * pow2 e0 = (if s then - 1 else 1) * real m * pow2 e"
proof -
  have "real m * 2 ^ nat (e - e0) * pow2 e0 = real m * pow2 e"
    using pow2_split [OF assms] by (simp add: mult.assoc)
  then show ?thesis by (simp add: scaled_def)
qed

lemma scaled_valof:
  "e0 \<le> e \<Longrightarrow> real_of_int (scaled s m e e0) * pow2 e0 = valof (Finite s m e)"
  by (simp add: scaled_real valof_def)

lemma float_eq_valof:
  "float_eq (Finite s1 m1 e1) (Finite s2 m2 e2)
     = (valof (Finite s1 m1 e1) = valof (Finite s2 m2 e2))"
proof -
  let ?e = "min e1 e2"
  have "(scaled s1 m1 e1 ?e = scaled s2 m2 e2 ?e)
      = (real_of_int (scaled s1 m1 e1 ?e) * pow2 ?e = real_of_int (scaled s2 m2 e2 ?e) * pow2 ?e)"
    by simp
  then show ?thesis by (simp add: scaled_valof)
qed

lemma float_le_valof:
  "float_le (Finite s1 m1 e1) (Finite s2 m2 e2)
     = (valof (Finite s1 m1 e1) \<le> valof (Finite s2 m2 e2))"
proof -
  let ?e = "min e1 e2"
  have "(scaled s1 m1 e1 ?e \<le> scaled s2 m2 e2 ?e)
      = (real_of_int (scaled s1 m1 e1 ?e) * pow2 ?e \<le> real_of_int (scaled s2 m2 e2 ?e) * pow2 ?e)"
    by simp
  then show ?thesis by (simp add: scaled_valof)
qed

lemma float_le_zero: "float_le (Finite s m e) float_zero = (s \<or> m = 0)"
proof -
  have "(real m * pow2 e \<le> 0) = (m = 0)"
    by (simp add: mult_le_0_iff not_le)
  then show ?thesis
    by (simp add: float_zero_def float_le_valof valof_def del: float_le.simps)
qed

lemma is_float_bound:
  assumes "m < 2 ^ 53" and "e \<le> 971"
  shows "real m * pow2 e \<le> (2 ^ 53 - 1) * pow2 971"
proof -
  have "m \<le> 2 ^ 53 - 1" using assms(1) by simp
  then have "real m \<le> real (2 ^ 53 - 1)" by (simp only: of_nat_le_iff)
  then have "real m \<le> 2 ^ 53 - 1" by simp
  moreover have "pow2 e \<le> pow2 971" using assms(2) by (rule pow2_mono)
  ultimately show ?thesis by (intro mult_mono) simp_all
qed

text \<open>The two literals are the floats nearest to 0.2 and to 1.89: within half a unit in the last place.\<close>

lemma float_0_2_nearest: "\<bar>valof float_0_2 - 1 / 5\<bar> < pow2 (- 56)"
  by (simp add: float_0_2_def valof_def pow2_def)

lemma float_1_89_nearest: "\<bar>valof float_1_89 - 189 / 100\<bar> < pow2 (- 53)"
  by (simp add: float_1_89_def valof_def pow2_def)

section \<open>Properties of rounding\<close>

lemma bit_length_le: "M < 2 ^ n \<Longrightarrow> bit_length M \<le> n"
proof (induction n arbitrary: M)
  case 0
  then show ?case by simp
next
  case (Suc n)
  show ?case
  proof (cases "M = 0")
    case True
    then show ?thesis by simp
  next
    case False
    have "M div 2 < 2 ^ n" using Suc.prems by simp
    then have "bit_length (M div 2) \<le> n" by (rule Suc.IH)
    then show ?thesis using False by (subst bit_length.simps) simp
  qed
qed

lemma bit_length_gt: "M < 2 ^ bit_length M"
proof (induction M rule: bit_length.induct)
  case (1 n)
  show ?case
  proof (cases "n = 0")
    case True
    then show ?thesis by simp
  next
    case False
    then have "n div 2 < 2 ^ bit_length (n div 2)" using 1 by simp
    then have "n < 2 * 2 ^ bit_length (n div 2)" by linarith
    then show ?thesis using False by (subst bit_length.simps) simp
  qed
qed

lemma bit_length_ge: "M \<noteq> 0 \<Longrightarrow> 2 ^ bit_length M \<le> 2 * M"
proof (induction M rule: bit_length.induct)
  case (1 n)
  show ?case
  proof (cases "n div 2 = 0")
    case True
    then have "n = 1" using "1.prems" by (simp add: div_eq_0_iff) 
    then show ?thesis by simp
  next
    case False
    then have "2 ^ bit_length (n div 2) \<le> 2 * (n div 2)" using 1 by simp
    then have "2 ^ bit_length (n div 2) \<le> n" by linarith
    then show ?thesis using "1.prems" by (subst bit_length.simps) simp
  qed
qed

lemma pack_is_float: "m < 2 ^ 53 \<Longrightarrow> - 1074 \<le> e \<Longrightarrow> is_float (pack s m e)"
  by (simp add: pack_def is_float_def)

text \<open>Rounding always gives a representable float.\<close>

lemma round_float_is_float: "is_float (round_float s M E)"
proof (cases "M = 0")
  case True
  then show ?thesis by (simp add: round_float_def is_float_def)
next
  case False
  define k where "k = bit_length M"
  define e0 where "e0 = max (E + int k - 53) (- 1074)"
  have unfold: "round_float s M E =
      (if e0 \<le> E then pack s (M * 2 ^ nat (E - e0)) e0
       else let d = nat (e0 - E); q = M div 2 ^ d; r = M mod 2 ^ d; half = 2 ^ (d - 1);
                mm = (if (if r = half then odd q else half < r) then q + 1 else q)
            in if mm = 2 ^ 53 then pack s (2 ^ 52) (e0 + 1) else pack s mm e0)"
    unfolding round_float_def e0_def k_def Let_def using False by (simp only: if_False)
  have lo: "- 1074 \<le> e0" "- 1074 \<le> e0 + 1" by (simp_all add: e0_def)
  have Mk: "M < 2 ^ k" unfolding k_def by (rule bit_length_gt)
  show ?thesis
  proof (cases "e0 \<le> E")
    case True
    then have "k + nat (E - e0) \<le> 53" unfolding e0_def by linarith
    then have le: "(2::nat) ^ (k + nat (E - e0)) \<le> 2 ^ 53" by (simp only: power_increasing_iff)
    have "M * 2 ^ nat (E - e0) < 2 ^ k * 2 ^ nat (E - e0)" using Mk by simp
    also have "\<dots> = 2 ^ (k + nat (E - e0))" by (simp only: power_add)
    also have "\<dots> \<le> 2 ^ 53" by (rule le)
    finally have "M * 2 ^ nat (E - e0) < 2 ^ 53" .
    then show ?thesis using True lo by (simp add: unfold pack_is_float)
  next
    case False
    define d where "d = nat (e0 - E)"
    define q where "q = M div 2 ^ d"
    define mm where "mm = (if (if M mod 2 ^ d = 2 ^ (d - 1) then odd q else 2 ^ (d - 1) < M mod 2 ^ d)
                           then q + 1 else q)"
    have r: "round_float s M E = (if mm = 2 ^ 53 then pack s (2 ^ 52) (e0 + 1) else pack s mm e0)"
      using False by (simp add: unfold d_def q_def mm_def Let_def)
    have "int k - 53 \<le> int d" using False unfolding d_def e0_def by linarith
    then have "k \<le> 53 + d" by simp
    then have "(2::nat) ^ k \<le> 2 ^ (53 + d)" by (simp only: power_increasing_iff)
    with Mk have "M < 2 ^ (53 + d)" by (rule less_le_trans)
    then have "M < 2 ^ 53 * 2 ^ d" by (simp only: power_add)
    then have "q < 2 ^ 53" unfolding q_def by (metis less_mult_imp_div_less)
    then have "mm \<le> 2 ^ 53" by (simp add: mm_def)
    then show ?thesis using lo by (auto simp: r pack_is_float)
  qed
qed

text \<open>A number that is representable is rounded to itself.\<close>

lemma round_float_exact:
  assumes m: "0 < m" "m < 2 ^ 53" and e: "- 1074 \<le> e" "e \<le> 971" and E: "E \<le> e"
  shows "\<exists>m' e'. round_float s (m * 2 ^ nat (e - E)) E = Finite s m' e'
           \<and> real m' * pow2 e' = real m * pow2 e"
proof -
  define n where "n = nat (e - E)"
  define M where "M = m * 2 ^ n"
  define k where "k = bit_length M"
  define e0 where "e0 = max (E + int k - 53) (- 1074)"
  have M_pos: "M \<noteq> 0" using m by (simp add: M_def)
  have "M < 2 ^ 53 * 2 ^ n" unfolding M_def using m by simp
  then have "M < 2 ^ (53 + n)" by (simp add: power_add)
  then have k_le: "k \<le> 53 + n" unfolding k_def by (rule bit_length_le)
  have e0_le: "e0 \<le> e" using k_le e E by (simp add: e0_def n_def)
  have M_val: "real M * pow2 E = real m * pow2 e"
    using pow2_split [OF E] by (simp add: M_def n_def mult.assoc)
  have unfold: "round_float s M E =
      (if e0 \<le> E then pack s (M * 2 ^ nat (E - e0)) e0
       else let d = nat (e0 - E); q = M div 2 ^ d; r = M mod 2 ^ d; half = 2 ^ (d - 1);
                mm = (if (if r = half then odd q else half < r) then q + 1 else q)
            in if mm = 2 ^ 53 then pack s (2 ^ 52) (e0 + 1) else pack s mm e0)"
    unfolding round_float_def e0_def k_def Let_def using M_pos by (simp only: if_False)
  show ?thesis
  proof (cases "e0 \<le> E")
    case True
    have "real (M * 2 ^ nat (E - e0)) * pow2 e0 = real M * pow2 E"
      using pow2_split [OF True] by (simp add: mult.assoc)
    moreover have "round_float s M E = Finite s (M * 2 ^ nat (E - e0)) e0"
      using True M_pos e0_le e by (simp add: unfold pack_def)
    ultimately show ?thesis using M_val by (auto simp: M_def n_def)
  next
    case False
    define d where "d = nat (e0 - E)"
    have d_pos: "0 < d" using False by (simp add: d_def)
    have d_le: "d \<le> n" using e0_le False by (simp add: d_def n_def)
    have M_eq: "M = m * 2 ^ (n - d) * 2 ^ d"
      using d_le by (simp add: M_def mult.assoc power_add [symmetric])
    have q: "M div 2 ^ d = m * 2 ^ (n - d)" by (subst M_eq) simp
    have r: "M mod 2 ^ d = 0" by (subst M_eq) simp
    have "int k - 53 \<le> int d" using False unfolding d_def e0_def by linarith
    then have "k \<le> 53 + d" by simp
    then have "(2::nat) ^ k \<le> 2 ^ (53 + d)" by (simp add: power_increasing)
    moreover have "M < 2 ^ k" unfolding k_def by (rule bit_length_gt)
    ultimately have "M < 2 ^ 53 * 2 ^ d" by (simp add: power_add)
    then have q_lt: "m * 2 ^ (n - d) < 2 ^ 53"
      using q by (metis less_mult_imp_div_less)
    have q_pos: "m * 2 ^ (n - d) \<noteq> 0" using m by simp
    have half: "(0::nat) \<noteq> 2 ^ (d - 1)" by simp
    have "round_float s M E = Finite s (m * 2 ^ (n - d)) e0"
      using False q_lt q_pos e0_le e half
      by (simp add: unfold d_def [symmetric] q r pack_def Let_def)
    moreover have "real (m * 2 ^ (n - d)) * pow2 e0 = real m * pow2 e"
    proof -
      have "e0 = int d + E" using False by (simp add: d_def)
      then have "pow2 e0 = 2 ^ d * pow2 E" by (simp add: pow2_add pow2_nat)
      moreover have "real M = real (m * 2 ^ (n - d)) * 2 ^ d" by (subst M_eq) simp
      ultimately have "real (m * 2 ^ (n - d)) * pow2 e0 = real M * pow2 E"
        by (simp only: mult.assoc)
      then show ?thesis by (simp only: M_val)
    qed
    ultimately show ?thesis by (auto simp: M_def n_def)
  qed
qed

text \<open>
  Rounding at most doubles a number, unless the result is the smallest subnormal or zero;
  this also covers the products that fall below the normal range.
\<close>

lemma round_float_upper:
  assumes "M \<noteq> 0"
  shows "\<exists>m' e'. round_float s M E = pack s m' e'
           \<and> - 1074 \<le> e' \<and> e' \<le> max (E + int (bit_length M) - 53) (- 1074) + 1
           \<and> (real m' * pow2 e' \<le> 2 * (real M * pow2 E)
                \<or> real m' * pow2 e' \<le> pow2 (max (E + int (bit_length M) - 53) (- 1074)))"
proof -
  define e0 where "e0 = max (E + int (bit_length M) - 53) (- 1074)"
  have unfold: "round_float s M E =
      (if e0 \<le> E then pack s (M * 2 ^ nat (E - e0)) e0
       else let d = nat (e0 - E); q = M div 2 ^ d; r = M mod 2 ^ d; half = 2 ^ (d - 1);
                mm = (if (if r = half then odd q else half < r) then q + 1 else q)
            in if mm = 2 ^ 53 then pack s (2 ^ 52) (e0 + 1) else pack s mm e0)"
    unfolding round_float_def e0_def Let_def using assms by (simp only: if_False)
  have lo: "- 1074 \<le> e0" "- 1074 \<le> e0 + 1" by (simp_all add: e0_def)
  have goal: "\<exists>m' e'. round_float s M E = pack s m' e' \<and> - 1074 \<le> e' \<and> e' \<le> e0 + 1
           \<and> (real m' * pow2 e' \<le> 2 * (real M * pow2 E) \<or> real m' * pow2 e' \<le> pow2 e0)"
  proof (cases "e0 \<le> E")
    case True
    have "real (M * 2 ^ nat (E - e0)) * pow2 e0 = real M * pow2 E"
      using pow2_split [OF True] by (simp add: mult.assoc)
    moreover have "0 \<le> real M * pow2 E" by simp
    ultimately have "real (M * 2 ^ nat (E - e0)) * pow2 e0 \<le> 2 * (real M * pow2 E)"
      by linarith
    moreover have "round_float s M E = pack s (M * 2 ^ nat (E - e0)) e0"
      using True by (simp add: unfold)
    ultimately show ?thesis using lo
      by (intro exI [of _ "M * 2 ^ nat (E - e0)"] exI [of _ e0]) simp
  next
    case False
    define d where "d = nat (e0 - E)"
    define q where "q = M div 2 ^ d"
    define mm where "mm = (if (if M mod 2 ^ d = 2 ^ (d - 1) then odd q else 2 ^ (d - 1) < M mod 2 ^ d)
                           then q + 1 else q)"
    have r: "round_float s M E = (if mm = 2 ^ 53 then pack s (2 ^ 52) (e0 + 1) else pack s mm e0)"
      using False by (simp add: unfold d_def q_def mm_def Let_def)
    have "e0 = int d + E" using False by (simp add: d_def)
    then have p: "pow2 e0 = 2 ^ d * pow2 E" by (simp add: pow2_add pow2_nat)
    have mm_le: "mm \<le> q + 1" by (simp add: mm_def)
    have bound: "real mm * pow2 e0 \<le> 2 * (real M * pow2 E) \<or> real mm * pow2 e0 \<le> pow2 e0"
    proof (cases "q = 0")
      case True
      then have "real mm \<le> 1" using mm_le by simp
      then have "real mm * pow2 e0 \<le> 1 * pow2 e0" by (intro mult_right_mono) simp_all
      then show ?thesis by simp
    next
      case False
      then have "mm \<le> 2 * q" using mm_le by simp
      then have "mm * 2 ^ d \<le> (2 * q) * 2 ^ d" by (rule mult_le_mono1)
      also have "\<dots> = 2 * (q * 2 ^ d)" by (simp only: mult.assoc)
      also have "\<dots> \<le> 2 * M" by (rule mult_le_mono2) (simp add: q_def)
      finally have "mm * 2 ^ d \<le> 2 * M" .
      then have "real (mm * 2 ^ d) \<le> real (2 * M)" by (simp only: of_nat_le_iff)
      then have "real (mm * 2 ^ d) * pow2 E \<le> real (2 * M) * pow2 E"
        by (intro mult_right_mono) simp_all
      then have "real mm * (2 ^ d * pow2 E) \<le> 2 * (real M * pow2 E)"
        by (simp add: mult.assoc)
      then show ?thesis by (simp only: p simp_thms)
    qed
    show ?thesis
    proof (cases "mm = 2 ^ 53")
      case True
      have "pow2 (e0 + 1) = 2 * pow2 e0"
        using pow2_add [of e0 1] pow2_nat [of 1] by simp
      then have "real ((2::nat) ^ 52) * pow2 (e0 + 1) = real mm * pow2 e0"
        by (simp add: True)
      then show ?thesis using bound r True lo
        by (intro exI [of _ "2 ^ 52"] exI [of _ "e0 + 1"]) (simp only: if_True le_refl simp_thms)
    next
      case False
      then show ?thesis using bound r lo
        by (intro exI [of _ mm] exI [of _ e0]) simp
    qed
  qed
  then show ?thesis by (simp only: e0_def)
qed

lemma round_float_sign:
  "(\<exists>m' e'. round_float s M E = Finite s m' e') \<or> round_float s M E = Infinite s"
proof (cases "M = 0")
  case True
  then show ?thesis by (simp add: round_float_def)
next
  case False
  then obtain m' e' where "round_float s M E = pack s m' e'"
    using round_float_upper [of M s E] by blast
  then show ?thesis by (simp add: pack_def)
qed

text \<open>The step to the even neighbour is off by at most a half.\<close>

lemma round_up_error:
  fixes q r h :: nat
  assumes "r < 2 * h"
  shows "\<bar>real ((if (if r = h then odd q else h < r) then q + 1 else q) * (2 * h))
            - real (q * (2 * h) + r)\<bar> \<le> real h"
proof (cases "if r = h then odd q else h < r")
  case True
  then have "h \<le> r" by (auto split: if_splits)
  then show ?thesis using True assms by (simp add: algebra_simps)
next
  case False
  then have "r \<le> h" by (auto split: if_splits)
  then show ?thesis using False by (simp add: algebra_simps)
qed

text \<open>
  From the subnormal exponent upwards, and below the overflow threshold, rounding gives a
  finite float within a relative error of \<open>2^-53\<close>.
\<close>

lemma round_float_error:
  assumes M: "M \<noteq> 0" and E: "- 1074 \<le> E \<or> - 1074 \<le> E + int (bit_length M) - 53"
    and B: "real M * pow2 E \<le> (2 ^ 53 - 1) * pow2 971"
  shows "\<exists>m' e'. round_float s M E = Finite s m' e' \<and> - 1074 \<le> e' \<and> e' \<le> 971
           \<and> \<bar>real m' * pow2 e' - real M * pow2 E\<bar> \<le> pow2 (- 53) * (real M * pow2 E)"
proof -
  define k where "k = bit_length M"
  define e0 where "e0 = max (E + int k - 53) (- 1074)"
  define X where "X = real M * pow2 E"
  have X0: "0 \<le> X" by (simp add: X_def)
  have unfold: "round_float s M E =
      (if e0 \<le> E then pack s (M * 2 ^ nat (E - e0)) e0
       else let d = nat (e0 - E); q = M div 2 ^ d; r = M mod 2 ^ d; half = 2 ^ (d - 1);
                mm = (if (if r = half then odd q else half < r) then q + 1 else q)
            in if mm = 2 ^ 53 then pack s (2 ^ 52) (e0 + 1) else pack s mm e0)"
    unfolding round_float_def e0_def k_def Let_def using M by (simp only: if_False)
  have k2: "real (2 ^ k) \<le> 2 * real M"
    using bit_length_ge [OF M] unfolding k_def [symmetric]
    by (metis of_nat_le_iff of_nat_mult of_nat_numeral)
  have top: "(2 ^ 53 - 1) * pow2 971 < pow2 1024"
  proof -
    have "pow2 1024 = 2 ^ 53 * pow2 971" using pow2_add [of 53 971] pow2_nat [of 53] by simp
    then show ?thesis by simp
  qed
  show ?thesis
  proof (cases "e0 \<le> E")
    case True
    have "pow2 (E + int k) = real (2 ^ k) * pow2 E"
      using pow2_add [of "int k" E] by (simp add: pow2_nat add.commute)
    also have "\<dots> \<le> 2 * real M * pow2 E" using k2 by (intro mult_right_mono) simp_all
    also have "\<dots> = 2 * X" by (simp add: X_def)
    also have "\<dots> < 2 * pow2 1024" using B top by (simp add: X_def)
    also have "\<dots> = pow2 1025" using pow2_add [of 1 1024] pow2_nat [of 1] by simp
    finally have "E + int k < 1025" by (rule pow2_less_cancel)
    then have e0: "e0 \<le> 971" by (simp add: e0_def)
    have "real (M * 2 ^ nat (E - e0)) * pow2 e0 = X"
      using pow2_split [OF True] by (simp add: X_def mult.assoc)
    moreover have "round_float s M E = Finite s (M * 2 ^ nat (E - e0)) e0"
      using True M e0 by (simp add: unfold pack_def)
    moreover have "- 1074 \<le> e0" by (simp add: e0_def)
    ultimately show ?thesis using e0 X0
      by (intro exI [of _ "M * 2 ^ nat (E - e0)"] exI [of _ e0]) (simp add: X_def [symmetric])
  next
    case False
    define d where "d = nat (e0 - E)"
    define h :: nat where "h = 2 ^ (d - 1)"
    define q where "q = M div 2 ^ d"
    define r where "r = M mod 2 ^ d"
    define mm where "mm = (if (if r = h then odd q else h < r) then q + 1 else q)"
    have d0: "0 < d" using False by (simp add: d_def)
    have "int k - 53 = int d" using False E unfolding d_def e0_def k_def by linarith
    then have kd: "k = d + 53" by linarith
    have e0E: "e0 = int d + E" using False by (simp add: d_def)
    have dh: "(2::nat) ^ d = 2 * h" using d0 by (simp add: h_def power_eq_if)
    have Mqr: "M = q * (2 * h) + r"
      unfolding q_def r_def dh [symmetric] by (rule div_mult_mod_eq [symmetric])
    have rlt: "r < 2 * h" by (simp add: r_def dh [symmetric])
    have res: "round_float s M E = (if mm = 2 ^ 53 then pack s (2 ^ 52) (e0 + 1) else pack s mm e0)"
      using False by (simp add: unfold d_def [symmetric] Let_def q_def r_def h_def mm_def)
    have p: "pow2 e0 = real (2 * h) * pow2 E"
      unfolding e0E dh [symmetric] by (simp add: pow2_add pow2_nat)
    have "\<bar>real (mm * (2 * h)) - real M\<bar> \<le> real h"
      using round_up_error [OF rlt, of q] by (simp only: mm_def Mqr [symmetric])
    then have "\<bar>real (mm * (2 * h)) - real M\<bar> * pow2 E \<le> real h * pow2 E"
      by (intro mult_right_mono) simp_all
    moreover have "real mm * pow2 e0 - X = (real (mm * (2 * h)) - real M) * pow2 E"
      by (simp add: p X_def algebra_simps)
    ultimately have err: "\<bar>real mm * pow2 e0 - X\<bar> \<le> real h * pow2 E"
      by (simp add: abs_mult)
    have "real (2 ^ k) = real h * 2 ^ 54"
      by (simp add: kd power_add dh)
    then have hM: "real h \<le> pow2 (- 53) * real M" using k2 by (simp add: pow2_def)
    have "real h * pow2 E \<le> (pow2 (- 53) * real M) * pow2 E"
      using hM by (rule mult_right_mono) simp
    also have "\<dots> = pow2 (- 53) * X" by (simp add: X_def mult.assoc)
    finally have hE: "real h * pow2 E \<le> pow2 (- 53) * X" .
    have errX: "\<bar>real mm * pow2 e0 - X\<bar> \<le> pow2 (- 53) * X"
      using err hE by (rule order_trans)
    have "2 ^ 52 * (2 * h) \<le> M"
      using bit_length_ge [OF M] unfolding k_def [symmetric] kd by (simp add: power_add dh)
    then have "2 ^ 52 \<le> q"
      unfolding q_def dh using d0 by (simp add: less_eq_div_iff_mult_less_eq h_def)
    then have mm52: "2 ^ 52 \<le> mm" by (simp add: mm_def)
    have "real mm * pow2 e0 \<le> X + pow2 (- 53) * X" using errX by linarith
    also have "\<dots> = (1 + pow2 (- 53)) * X" by (simp add: algebra_simps)
    also have "\<dots> \<le> (1 + pow2 (- 53)) * ((2 ^ 53 - 1) * pow2 971)"
      using B by (intro mult_left_mono) (simp_all add: X_def add_nonneg_nonneg)
    also have "\<dots> < 2 ^ 53 * pow2 971" by (simp add: pow2_def [of "- 53"])
    also have "\<dots> = pow2 1024" using pow2_add [of 53 971] pow2_nat [of 53] by simp
    finally have V: "real mm * pow2 e0 < pow2 1024" .
    have lo: "- 1074 \<le> e0" by (simp add: e0_def)
    show ?thesis
    proof (cases "mm = 2 ^ 53")
      case True
      have "pow2 (e0 + 53) = real mm * pow2 e0"
        using pow2_add [of e0 53] pow2_nat [of 53] by (simp add: True)
      then have "e0 + 53 < 1024" using V pow2_less_cancel by simp
      then have hi: "e0 + 1 \<le> 971" by simp
      have "pow2 (e0 + 1) = 2 * pow2 e0" using pow2_add [of e0 1] pow2_nat [of 1] by simp
      then have "real ((2::nat) ^ 52) * pow2 (e0 + 1) = real mm * pow2 e0" by (simp add: True)
      moreover have "round_float s M E = Finite s (2 ^ 52) (e0 + 1)"
        using True hi by (simp add: res pack_def)
      ultimately show ?thesis using errX lo hi
        by (intro exI [of _ "2 ^ 52"] exI [of _ "e0 + 1"]) (simp add: X_def [symmetric])
    next
      case False
      have "pow2 (e0 + 52) = 2 ^ 52 * pow2 e0"
        using pow2_add [of e0 52] pow2_nat [of 52] by (simp add: mult.commute)
      also have "\<dots> \<le> real mm * pow2 e0"
        using mm52 by (intro mult_right_mono) (simp_all add: numeral_power_le_of_nat_cancel_iff)
      finally have "pow2 (e0 + 52) < pow2 1024" using V by simp
      then have "e0 + 52 < 1024" by (rule pow2_less_cancel)
      then have hi: "e0 \<le> 971" by simp
      have "mm \<noteq> 0" using mm52 by auto
      then have "round_float s M E = Finite s mm e0"
        using False hi by (simp add: res pack_def)
      then show ?thesis using errX lo hi
        by (intro exI [of _ mm] exI [of _ e0]) (simp add: X_def [symmetric])
    qed
  qed
qed

text \<open>
  Below the normal range rounding is off by at most half of the smallest subnormal; in all,
  below the overflow threshold, by at most a relative \<open>2^-53\<close> plus \<open>2^-1075\<close>.
\<close>

lemma round_float_error_low:
  assumes M: "M \<noteq> 0" and low: "E + int (bit_length M) - 53 < - 1074"
  shows "\<exists>m' e'. round_float s M E = Finite s m' e' \<and> - 1074 \<le> e' \<and> e' \<le> 971
           \<and> \<bar>real m' * pow2 e' - real M * pow2 E\<bar> \<le> pow2 (- 1075)"
proof -
  define k where "k = bit_length M"
  define X where "X = real M * pow2 E"
  have e0: "max (E + int k - 53) (- 1074) = - 1074" using low by (simp add: k_def)
  have unfold: "round_float s M E =
      (if - 1074 \<le> E then pack s (M * 2 ^ nat (E - (- 1074))) (- 1074)
       else let d = nat (- 1074 - E); q = M div 2 ^ d; r = M mod 2 ^ d; half = 2 ^ (d - 1);
                mm = (if (if r = half then odd q else half < r) then q + 1 else q)
            in if mm = 2 ^ 53 then pack s (2 ^ 52) (- 1074 + 1) else pack s mm (- 1074))"
    unfolding round_float_def k_def [symmetric] e0 Let_def using M by (simp only: if_False)
  show ?thesis
  proof (cases "- 1074 \<le> E")
    case True
    have "real (M * 2 ^ nat (E - (- 1074))) * pow2 (- 1074) = X"
      using pow2_split [OF True] by (simp add: X_def mult.assoc)
    moreover have "round_float s M E = Finite s (M * 2 ^ nat (E - (- 1074))) (- 1074)"
      using True M by (simp add: unfold pack_def)
    ultimately show ?thesis
      by (intro exI [of _ "M * 2 ^ nat (E - (- 1074))"] exI [of _ "- 1074"])
        (simp add: X_def [symmetric])
  next
    case False
    define d where "d = nat (- 1074 - E)"
    define h :: nat where "h = 2 ^ (d - 1)"
    define q where "q = M div 2 ^ d"
    define r where "r = M mod 2 ^ d"
    define mm where "mm = (if (if r = h then odd q else h < r) then q + 1 else q)"
    have d0: "0 < d" using False by (simp add: d_def)
    have dE: "- 1074 = int d + E" using False by (simp add: d_def)
    have dh: "(2::nat) ^ d = 2 * h" using d0 by (simp add: h_def power_eq_if)
    have Mqr: "M = q * (2 * h) + r"
      unfolding q_def r_def dh [symmetric] by (rule div_mult_mod_eq [symmetric])
    have rlt: "r < 2 * h" by (simp add: r_def dh [symmetric])
    have res: "round_float s M E
        = (if mm = 2 ^ 53 then pack s (2 ^ 52) (- 1074 + 1) else pack s mm (- 1074))"
      using False by (simp add: unfold d_def [symmetric] Let_def q_def r_def h_def mm_def)
    have p: "pow2 (- 1074) = real (2 * h) * pow2 E"
      unfolding dE dh [symmetric] by (simp add: pow2_add pow2_nat)
    have "pow2 (- 1074) = 2 * pow2 (- 1075)"
      using pow2_add [of 1 "- 1075"] pow2_nat [of 1] by simp
    then have hE: "real h * pow2 E = pow2 (- 1075)" using p by simp
    have "\<bar>real (mm * (2 * h)) - real M\<bar> \<le> real h"
      using round_up_error [OF rlt, of q] by (simp only: mm_def Mqr [symmetric])
    then have "\<bar>real (mm * (2 * h)) - real M\<bar> * pow2 E \<le> real h * pow2 E"
      by (intro mult_right_mono) simp_all
    moreover have "real mm * pow2 (- 1074) - X = (real (mm * (2 * h)) - real M) * pow2 E"
      by (simp add: p X_def algebra_simps)
    ultimately have "\<bar>real mm * pow2 (- 1074) - X\<bar> \<le> real h * pow2 E"
      by (simp add: abs_mult)
    then have err: "\<bar>real mm * pow2 (- 1074) - X\<bar> \<le> pow2 (- 1075)" by (simp only: hE)
    have "int k - 53 < int d" using low False unfolding d_def k_def by linarith
    then have "k \<le> 52 + d" by simp
    then have "(2::nat) ^ k \<le> 2 ^ (52 + d)" by (simp only: power_increasing_iff)
    moreover have "M < 2 ^ k" unfolding k_def by (rule bit_length_gt)
    ultimately have "M < 2 ^ (52 + d)" by (rule less_le_trans [rotated])
    then have "M < 2 ^ 52 * 2 ^ d" by (simp only: power_add)
    then have "q < 2 ^ 52" unfolding q_def by (metis less_mult_imp_div_less)
    then have mm53: "mm \<noteq> 2 ^ 53" by (simp add: mm_def)
    show ?thesis
    proof (cases "mm = 0")
      case True
      then have "round_float s M E = Finite s 0 0" using mm53 by (simp add: res pack_def)
      then show ?thesis using err True
        by (intro exI [of _ 0] exI [of _ 0]) (simp add: X_def [symmetric])
    next
      case False
      then have "round_float s M E = Finite s mm (- 1074)" using mm53 by (simp add: res pack_def)
      then show ?thesis using err
        by (intro exI [of _ mm] exI [of _ "- 1074"]) (simp add: X_def [symmetric])
    qed
  qed
qed

lemma round_float_abs_error:
  assumes M: "M \<noteq> 0" and B: "real M * pow2 E \<le> (2 ^ 53 - 1) * pow2 971"
  shows "\<exists>m' e'. round_float s M E = Finite s m' e' \<and> - 1074 \<le> e' \<and> e' \<le> 971
           \<and> \<bar>real m' * pow2 e' - real M * pow2 E\<bar>
               \<le> pow2 (- 53) * (real M * pow2 E) + pow2 (- 1075)"
proof (cases "E + int (bit_length M) - 53 < - 1074")
  case True
  obtain m' e' where r: "round_float s M E = Finite s m' e'" "- 1074 \<le> e'" "e' \<le> 971"
    and err: "\<bar>real m' * pow2 e' - real M * pow2 E\<bar> \<le> pow2 (- 1075)"
    using round_float_error_low [OF M True, of s] by blast
  have "0 \<le> pow2 (- 53) * (real M * pow2 E)" by simp
  with err have "\<bar>real m' * pow2 e' - real M * pow2 E\<bar>
      \<le> pow2 (- 53) * (real M * pow2 E) + pow2 (- 1075)" by linarith
  with r show ?thesis by blast
next
  case False
  then have "- 1074 \<le> E \<or> - 1074 \<le> E + int (bit_length M) - 53" by simp
  then obtain m' e' where r: "round_float s M E = Finite s m' e'" "- 1074 \<le> e'" "e' \<le> 971"
    and err: "\<bar>real m' * pow2 e' - real M * pow2 E\<bar> \<le> pow2 (- 53) * (real M * pow2 E)"
    using round_float_error [OF M _ B, of s] by blast
  have "0 \<le> pow2 (- 1075)" by simp
  with err have "\<bar>real m' * pow2 e' - real M * pow2 E\<bar>
      \<le> pow2 (- 53) * (real M * pow2 E) + pow2 (- 1075)" by linarith
  with r show ?thesis by blast
qed

section \<open>Properties of the operations\<close>

text \<open>Only NaN is not equal to itself.\<close>

lemma float_eq_self: "float_eq x x = (x \<noteq> NaN)"
  by (cases x) simp_all

lemma float_add_is_float: "is_float (float_add x y)"
  by (cases x; cases y) (simp_all add: Let_def round_float_is_float, simp_all add: is_float_def)

lemma float_mul_is_float: "is_float (float_mul x y)"
  by (cases x; cases y) (simp_all add: round_float_is_float, simp_all add: is_float_def)

lemma float_sub_is_float: "is_float (float_sub x y)"
  by (simp add: float_sub_def float_add_is_float)

text \<open>Adding zero changes no number.\<close>

lemma float_add_zero:
  assumes "is_float x" and "x \<noteq> NaN"
  shows "float_eq (float_add x float_zero) x"
proof (cases x)
  case (Finite s m e)
  have v: "m < 2 ^ 53" "- 1074 \<le> e" "e \<le> 971" using assms(1) Finite by (simp_all add: is_float_def)
  show ?thesis
  proof (cases "m = 0")
    case True
    then show ?thesis using Finite by (simp add: float_zero_def scaled_def Let_def)
  next
    case False
    define E where "E = min e 0"
    have E: "E \<le> e" by (simp add: E_def)
    have "scaled s m e E \<noteq> 0" "(scaled s m e E < 0) = s"
      "nat \<bar>scaled s m e E\<bar> = m * 2 ^ nat (e - E)"
      using False by (simp_all add: scaled_def abs_mult nat_mult_distrib nat_power_eq not_less)
    then have "float_add x float_zero = round_float s (m * 2 ^ nat (e - E)) E"
      using Finite by (simp add: float_zero_def E_def [symmetric] Let_def scaled_def [of False])
    moreover obtain m' e' where "round_float s (m * 2 ^ nat (e - E)) E = Finite s m' e'"
      and "real m' * pow2 e' = real m * pow2 e"
      using round_float_exact [of m e E s] False v E by auto
    ultimately show ?thesis using Finite by (simp add: float_eq_valof valof_def del: float_eq.simps)
  qed
next
  case (Infinite s)
  then show ?thesis by (simp add: float_zero_def)
next
  case NaN
  then show ?thesis using assms(2) by simp
qed

text \<open>The product with 0.2 keeps the sign and is not larger in magnitude.\<close>

lemma float_mul_0_2_bound:
  assumes m: "m \<noteq> 0" "m < 2 ^ 53" and e: "- 1074 \<le> e" "e \<le> 971"
  shows "\<exists>m' e'. float_mul (Finite s m e) float_0_2 = Finite s m' e' \<and> - 1074 \<le> e'
           \<and> real m' * pow2 e' \<le> real m * pow2 e"
proof -
  define M where "M = m * 7205759403792794"
  define e0 where "e0 = max (e - 55 + int (bit_length M) - 53) (- 1074)"
  have mul: "float_mul (Finite s m e) float_0_2 = round_float s M (e - 55)"
    by (simp add: float_0_2_def M_def)
  have M0: "M \<noteq> 0" using m by (simp add: M_def)
  obtain m' e' where r: "round_float s M (e - 55) = pack s m' e'"
    and lo: "- 1074 \<le> e'" and e': "e' \<le> e0 + 1"
    and b: "real m' * pow2 e' \<le> 2 * (real M * pow2 (e - 55)) \<or> real m' * pow2 e' \<le> pow2 e0"
    using round_float_upper [OF M0, of s "e - 55"] unfolding e0_def by blast
  have "m * 7205759403792794 < 2 ^ 53 * 2 ^ 53"
    using m by (intro mult_strict_mono) simp_all
  then have "M < 2 ^ 106" by (simp add: M_def)
  then have "bit_length M \<le> 106" by (rule bit_length_le)
  then have e0: "e0 \<le> e" "e0 + 1 \<le> 971" using e by (simp_all add: e0_def)
  have one: "1 \<le> real m" using m by simp
  have "pow2 e0 \<le> pow2 e" using e0 by (simp add: pow2_mono)
  also have "\<dots> \<le> real m * pow2 e" using one by simp
  finally have b2: "pow2 e0 \<le> real m * pow2 e" .
  have "pow2 (e - 55) = pow2 e * pow2 (- 55)" using pow2_add [of e "- 55"] by simp
  then have "2 * (real M * pow2 (e - 55))
      = (real m * pow2 e) * (2 * 7205759403792794 * pow2 (- 55))"
    by (simp add: M_def)
  also have "\<dots> \<le> (real m * pow2 e) * 1"
    by (intro mult_left_mono) (simp_all add: pow2_def)
  finally have b1: "2 * (real M * pow2 (e - 55)) \<le> real m * pow2 e" by simp
  have v: "real m' * pow2 e' \<le> real m * pow2 e" using b b1 b2 by linarith
  have nn: "0 \<le> real m * pow2 e" by simp
  show ?thesis
  proof (cases "m' = 0")
    case True
    then have "float_mul (Finite s m e) float_0_2 = Finite s 0 0"
      by (simp add: mul r pack_def)
    then show ?thesis using nn by (intro exI [of _ 0]) simp
  next
    case False
    then have "float_mul (Finite s m e) float_0_2 = Finite s m' e'"
      using e' e0 by (simp add: mul r pack_def)
    then show ?thesis using v lo by blast
  qed
qed

lemma float_mul_0_2_finite:
  assumes "m < 2 ^ 53" "- 1074 \<le> e" "e \<le> 971"
  shows "\<exists>m' e'. float_mul (Finite s m e) float_0_2 = Finite s m' e' \<and> - 1074 \<le> e'
           \<and> real m' * pow2 e' \<le> real m * pow2 e"
proof (cases "m = 0")
  case True
  then have "float_mul (Finite s m e) float_0_2 = Finite s 0 0"
    by (simp add: float_0_2_def round_float_def)
  then show ?thesis by (intro exI [of _ 0]) simp
next
  case False
  then show ?thesis using assms by (rule float_mul_0_2_bound)
qed

text \<open>The product with 0.2 is one fifth, up to the rounding of the literal and of the product.\<close>

lemma float_mul_0_2_error:
  assumes v: "m < 2 ^ 53" "- 1074 \<le> e" "e \<le> 971"
  shows "\<bar>valof (float_mul (Finite s m e) float_0_2) - valof (Finite s m e) / 5\<bar>
           \<le> pow2 (- 54) * (real m * pow2 e) + pow2 (- 1075)"
proof (cases "m = 0")
  case True
  then have "float_mul (Finite s m e) float_0_2 = Finite s 0 0"
    by (simp add: float_0_2_def round_float_def)
  then show ?thesis using True by (simp add: valof_def)
next
  case False
  define C where "C = real m * pow2 e"
  define a :: real where "a = 7205759403792794 / 2 ^ 55"
  define M where "M = m * 7205759403792794"
  define X where "X = real M * pow2 (e - 55)"
  define sg :: real where "sg = (if s then - 1 else 1)"
  have C0: "0 \<le> C" by (simp add: C_def)
  have "pow2 (e - 55) = pow2 e * pow2 (- 55)" using pow2_add [of e "- 55"] by simp
  then have XC: "X = C * a" by (simp add: X_def M_def C_def a_def pow2_def [of "- 55"])
  have "C * a \<le> C * 1" using C0 by (intro mult_left_mono) (simp_all add: a_def)
  then have "X \<le> C" by (simp add: XC)
  then have B: "real M * pow2 (e - 55) \<le> (2 ^ 53 - 1) * pow2 971"
    using is_float_bound [OF v(1) v(3)] unfolding X_def [symmetric] C_def [symmetric] by linarith
  have M0: "M \<noteq> 0" using False by (simp add: M_def)
  have mul: "float_mul (Finite s m e) float_0_2 = round_float s M (e - 55)"
    by (simp add: float_0_2_def M_def)
  obtain m' e' where r: "round_float s M (e - 55) = Finite s m' e'"
    and err: "\<bar>real m' * pow2 e' - X\<bar> \<le> pow2 (- 53) * X + pow2 (- 1075)"
    using round_float_abs_error [OF M0 B, of s] unfolding X_def [symmetric] by blast
  have num: "pow2 (- 53) * a + (a - 1 / 5) \<le> pow2 (- 54)" by (simp add: a_def pow2_def)
  have a5: "0 \<le> a - 1 / 5" by (simp add: a_def)
  have "pow2 (- 53) * X + (X - C / 5) = C * (pow2 (- 53) * a + (a - 1 / 5))"
    by (simp add: XC algebra_simps)
  also have "\<dots> \<le> C * pow2 (- 54)" using C0 num by (rule mult_left_mono [rotated])
  finally have tot: "pow2 (- 53) * X + (X - C / 5) \<le> pow2 (- 54) * C" by (simp add: mult.commute)
  have "X - C / 5 = C * (a - 1 / 5)" by (simp add: XC algebra_simps)
  then have X5: "0 \<le> X - C / 5" using C0 a5 by simp
  have "\<bar>real m' * pow2 e' - C / 5\<bar> \<le> \<bar>real m' * pow2 e' - X\<bar> + (X - C / 5)"
    using X5 by linarith
  then have bound: "\<bar>real m' * pow2 e' - C / 5\<bar> \<le> pow2 (- 54) * C + pow2 (- 1075)"
    using err tot by linarith
  have "valof (Finite s m' e') - valof (Finite s m e) / 5 = sg * (real m' * pow2 e' - C / 5)"
    by (simp add: valof_def sg_def C_def algebra_simps)
  then have "\<bar>valof (Finite s m' e') - valof (Finite s m e) / 5\<bar> = \<bar>real m' * pow2 e' - C / 5\<bar>"
    by (simp add: abs_mult sg_def)
  then show ?thesis using bound by (simp only: mul r C_def)
qed

text \<open>Taking away a part of a negative number leaves a number that is not positive.\<close>

lemma float_sub_nonpositive:
  assumes "real m' * pow2 e' \<le> real m * pow2 e"
  shows "float_le (float_sub (Finite True m e) (Finite True m' e')) float_zero"
proof -
  define E where "E = min e e'"
  define i where "i = scaled True m e E + scaled False m' e' E"
  have "real_of_int i * pow2 E = real_of_int (scaled True m e E) * pow2 E
      + real_of_int (scaled False m' e' E) * pow2 E"
    by (simp add: i_def distrib_right)
  also have "\<dots> = - (real m * pow2 e) + real m' * pow2 e'"
    by (simp add: scaled_real E_def)
  also have "\<dots> \<le> 0" using assms by simp
  finally have "real_of_int i * pow2 E \<le> 0" .
  then have i: "i \<le> 0" by (simp add: mult_le_0_iff not_le)
  have sub: "float_sub (Finite True m e) (Finite True m' e')
      = (if i = 0 then Finite False 0 0 else round_float (i < 0) (nat \<bar>i\<bar>) E)"
    by (simp add: float_sub_def float_neg_def Let_def i_def E_def)
  show ?thesis
  proof (cases "i = 0")
    case True
    then show ?thesis by (simp add: sub float_le_zero)
  next
    case False
    then have "i < 0" using i by simp
    then have "float_sub (Finite True m e) (Finite True m' e') = round_float True (nat \<bar>i\<bar>) E"
      by (simp add: sub)
    then show ?thesis
      using round_float_sign [of True "nat \<bar>i\<bar>" E]
      by (auto simp: float_le_zero) (simp add: float_zero_def)
  qed
qed

text \<open>Taking away a part of a number loses at most the rounding of the difference.\<close>

lemma float_sub_error:
  assumes v: "m < 2 ^ 53" "- 1074 \<le> e" "e \<le> 971" and e': "- 1074 \<le> e'"
    and le: "real m' * pow2 e' \<le> real m * pow2 e"
  shows "is_finite (float_sub (Finite s m e) (Finite s m' e'))
       \<and> \<bar>valof (float_sub (Finite s m e) (Finite s m' e')) + valof (Finite s m' e')
            - valof (Finite s m e)\<bar> \<le> pow2 (- 53) * (real m * pow2 e)"
proof -
  define E where "E = min e e'"
  define i where "i = scaled s m e E + scaled (\<not> s) m' e' E"
  define X where "X = real m * pow2 e - real m' * pow2 e'"
  define sg :: real where "sg = (if s then - 1 else 1)"
  have X0: "0 \<le> X" using le by (simp add: X_def)
  have XB: "X \<le> real m * pow2 e" by (simp add: X_def)
  have s1: "real_of_int (scaled s m e E) * pow2 E = sg * (real m * pow2 e)"
    using scaled_real [of E e s m] by (simp add: E_def sg_def)
  have s2: "real_of_int (scaled (\<not> s) m' e' E) * pow2 E = - sg * (real m' * pow2 e')"
    using scaled_real [of E e' "\<not> s" m'] by (simp add: E_def sg_def)
  have "real_of_int i * pow2 E = real_of_int (scaled s m e E) * pow2 E
      + real_of_int (scaled (\<not> s) m' e' E) * pow2 E"
    by (simp add: i_def distrib_right)
  also have "\<dots> = sg * X"
    unfolding s1 s2 by (simp add: X_def algebra_simps)
  finally have iX: "real_of_int i * pow2 E = sg * X" .
  have sub: "float_sub (Finite s m e) (Finite s m' e')
      = (if i = 0 then Finite False 0 0 else round_float (i < 0) (nat \<bar>i\<bar>) E)"
    by (simp add: float_sub_def float_neg_def Let_def i_def E_def)
  have vals: "valof (Finite s m' e') - valof (Finite s m e) = - (sg * X)"
    by (simp add: valof_def X_def sg_def algebra_simps)
  have nn: "0 \<le> pow2 (- 53) * (real m * pow2 e)" by simp
  show ?thesis
  proof (cases "i = 0")
    case True
    then have "sg * X = 0" using iX by simp
    moreover have "valof (Finite False 0 0) = 0" by (simp add: valof_def)
    ultimately have "valof (Finite False 0 0) + valof (Finite s m' e') - valof (Finite s m e) = 0"
      using vals by linarith
    then show ?thesis using True nn by (simp add: sub is_finite_def)
  next
    case False
    then have "sg * X \<noteq> 0" using iX by auto
    then have Xpos: "0 < X" using X0 by (cases "X = 0") simp_all
    have "(real_of_int i * pow2 E < 0) = s" unfolding iX using Xpos
      by (simp add: sg_def mult_less_0_iff not_less)
    then have sign: "(i < 0) = s" by (simp add: mult_less_0_iff not_less)
    have "\<bar>real_of_int i * pow2 E\<bar> = X" unfolding iX using X0 by (simp add: sg_def)
    then have mag: "real (nat \<bar>i\<bar>) * pow2 E = X" by (simp add: abs_mult)
    have "X \<le> (2 ^ 53 - 1) * pow2 971" using XB is_float_bound [OF v(1) v(3)] by linarith
    then have B: "real (nat \<bar>i\<bar>) * pow2 E \<le> (2 ^ 53 - 1) * pow2 971" by (simp only: mag)
    have i0: "nat \<bar>i\<bar> \<noteq> 0" using False by simp
    have E0: "- 1074 \<le> E" using v(2) e' by (simp add: E_def)
    obtain m'' e'' where r: "round_float s (nat \<bar>i\<bar>) E = Finite s m'' e''"
      and err: "\<bar>real m'' * pow2 e'' - X\<bar> \<le> pow2 (- 53) * X"
      using round_float_error [OF i0 disjI1 [OF E0] B, of s] unfolding mag by blast
    have a: "float_sub (Finite s m e) (Finite s m' e') = Finite s m'' e''"
      using False sign r by (simp add: sub)
    have "valof (Finite s m'' e'') + valof (Finite s m' e') - valof (Finite s m e)
        = sg * (real m'' * pow2 e'' - X)"
      using vals by (simp add: valof_def sg_def algebra_simps)
    then have eq: "\<bar>valof (Finite s m'' e'') + valof (Finite s m' e') - valof (Finite s m e)\<bar>
        = \<bar>real m'' * pow2 e'' - X\<bar>"
      by (simp add: abs_mult sg_def)
    have "pow2 (- 53) * X \<le> pow2 (- 53) * (real m * pow2 e)"
      using XB by (intro mult_left_mono) simp_all
    with err have "\<bar>real m'' * pow2 e'' - X\<bar> \<le> pow2 (- 53) * (real m * pow2 e)"
      by (rule order_trans)
    then show ?thesis by (simp add: a is_finite_def eq)
  qed
qed

section \<open>The damage assessor\<close>

text \<open>
  C1, as stated, fails: with equal images and the claim amount NaN, the approved amount is
  NaN, and the comparison of NaN with itself is false.
\<close>

theorem same_images_nan_counterexample:
  "before_image same_images_nan = after_image same_images_nan
   \<and> DamageResponse.approved_amount (verify_damage same_images_nan) = NaN
   \<and> claim_amount same_images_nan = NaN
   \<and> \<not> float_eq (DamageResponse.approved_amount (verify_damage same_images_nan))
          (claim_amount same_images_nan)"
  by (simp add: same_images_nan_def same_images_def verify_damage_def)

text \<open>
  C1, amended. For every DamageRequest whose \<^verbatim>\<open>before_image\<close> equals its \<^verbatim>\<open>after_image\<close>,
  the response of the damage assessor has the decision \<^verbatim>\<open>full_payout\<close>, a deduction equal to
  zero, and the claim amount unchanged as approved amount; the approved amount is equal to
  the claim amount, by the comparison of floats, exactly when the claim amount is not NaN.
\<close>

theorem verify_damage_same_images:
  assumes "before_image msg = after_image msg"
  shows "DamageResponse.decision (verify_damage msg) = ''full_payout''
       \<and> deduction (verify_damage msg) = float_zero
       \<and> float_eq (deduction (verify_damage msg)) float_zero
       \<and> DamageResponse.approved_amount (verify_damage msg) = claim_amount msg
       \<and> float_eq (DamageResponse.approved_amount (verify_damage msg)) (claim_amount msg)
           = (claim_amount msg \<noteq> NaN)"
  using assms by (simp add: verify_damage_def float_eq_self) (simp add: float_zero_def scaled_def)

theorem verify_damage_same_images_witness:
  "before_image same_images = after_image same_images
   \<and> DamageResponse.decision (verify_damage same_images) = ''full_payout''
   \<and> float_eq (deduction (verify_damage same_images)) (Finite False 0 0)
   \<and> DamageResponse.approved_amount (verify_damage same_images) = Finite False 1000 0
   \<and> float_eq (DamageResponse.approved_amount (verify_damage same_images)) (Finite False 1000 0)"
proof -
  have h: "before_image same_images = after_image same_images" by (simp add: same_images_def)
  have c: "claim_amount same_images = Finite False 1000 0"
    by (simp add: same_images_def float_1000_def)
  show ?thesis using h verify_damage_same_images [OF h] by (simp add: c float_zero_def)
qed

text \<open>
  C2, as stated, fails: with different images and an infinite claim amount the deduction
  is infinite and the approved amount, infinity minus infinity, is NaN, which is equal to
  nothing.
\<close>

theorem different_images_inf_counterexample:
  "before_image (claim_of (Infinite False)) \<noteq> after_image (claim_of (Infinite False))
   \<and> deduction (verify_damage (claim_of (Infinite False))) = Infinite False
   \<and> DamageResponse.approved_amount (verify_damage (claim_of (Infinite False))) = NaN
   \<and> float_sub (claim_amount (claim_of (Infinite False)))
        (deduction (verify_damage (claim_of (Infinite False)))) = NaN
   \<and> \<not> float_eq (DamageResponse.approved_amount (verify_damage (claim_of (Infinite False))))
          (float_sub (claim_amount (claim_of (Infinite False)))
             (deduction (verify_damage (claim_of (Infinite False)))))"
  by (simp add: verify_damage_def Let_def float_0_2_def float_sub_def float_neg_def)

text \<open>
  C2, amended. For every DamageRequest whose \<^verbatim>\<open>before_image\<close> differs from its
  \<^verbatim>\<open>after_image\<close>, the response has the decision \<^verbatim>\<open>deduct_payout\<close>, the deduction is the
  float product of the claim amount and 0.2, and the approved amount is the float difference
  of the claim amount and the deduction. When the claim amount is a finite float, both are
  finite and equal to that product and that difference by the comparison of floats; the
  deduction is one fifth of the claim amount up to \<open>2^-54\<close> times its magnitude plus
  \<open>2^-1075\<close>, and the approved amount is the exact difference up to \<open>2^-53\<close> times the
  magnitude of the claim amount.
\<close>

theorem verify_damage_different_images:
  assumes "before_image msg \<noteq> after_image msg"
  shows "DamageResponse.decision (verify_damage msg) = ''deduct_payout''
       \<and> deduction (verify_damage msg) = float_mul (claim_amount msg) float_0_2
       \<and> DamageResponse.approved_amount (verify_damage msg)
           = float_sub (claim_amount msg) (deduction (verify_damage msg))
       \<and> (is_float (claim_amount msg) \<and> is_finite (claim_amount msg) \<longrightarrow>
            is_finite (deduction (verify_damage msg))
            \<and> is_finite (DamageResponse.approved_amount (verify_damage msg))
            \<and> float_eq (deduction (verify_damage msg)) (float_mul (claim_amount msg) float_0_2)
            \<and> float_eq (DamageResponse.approved_amount (verify_damage msg))
                 (float_sub (claim_amount msg) (deduction (verify_damage msg)))
            \<and> \<bar>valof (deduction (verify_damage msg)) - valof (claim_amount msg) / 5\<bar>
                 \<le> pow2 (- 54) * \<bar>valof (claim_amount msg)\<bar> + pow2 (- 1075)
            \<and> \<bar>valof (DamageResponse.approved_amount (verify_damage msg))
                  - (valof (claim_amount msg) - valof (deduction (verify_damage msg)))\<bar>
                 \<le> pow2 (- 53) * \<bar>valof (claim_amount msg)\<bar>)"
proof -
  have d: "deduction (verify_damage msg) = float_mul (claim_amount msg) float_0_2"
    and a: "DamageResponse.approved_amount (verify_damage msg)
        = float_sub (claim_amount msg) (float_mul (claim_amount msg) float_0_2)"
    and dec: "DamageResponse.decision (verify_damage msg) = ''deduct_payout''"
    using assms by (simp_all add: verify_damage_def Let_def)
  have fin: "is_finite (float_mul (claim_amount msg) float_0_2)
      \<and> is_finite (float_sub (claim_amount msg) (float_mul (claim_amount msg) float_0_2))
      \<and> \<bar>valof (float_mul (claim_amount msg) float_0_2) - valof (claim_amount msg) / 5\<bar>
           \<le> pow2 (- 54) * \<bar>valof (claim_amount msg)\<bar> + pow2 (- 1075)
      \<and> \<bar>valof (float_sub (claim_amount msg) (float_mul (claim_amount msg) float_0_2))
            - (valof (claim_amount msg) - valof (float_mul (claim_amount msg) float_0_2))\<bar>
           \<le> pow2 (- 53) * \<bar>valof (claim_amount msg)\<bar>"
    if fl: "is_float (claim_amount msg)" and fi: "is_finite (claim_amount msg)"
  proof -
    obtain s m e where c: "claim_amount msg = Finite s m e"
      using fi by (cases "claim_amount msg") (simp_all add: is_finite_def)
    have v: "m < 2 ^ 53" "- 1074 \<le> e" "e \<le> 971" using fl c by (simp_all add: is_float_def)
    have absc: "\<bar>valof (Finite s m e)\<bar> = real m * pow2 e"
      by (simp add: valof_def abs_mult)
    obtain m' e' where m: "float_mul (Finite s m e) float_0_2 = Finite s m' e'"
      and lo: "- 1074 \<le> e'" and le: "real m' * pow2 e' \<le> real m * pow2 e"
      using float_mul_0_2_finite [OF v] by blast
    have e1: "\<bar>valof (Finite s m' e') - valof (Finite s m e) / 5\<bar>
        \<le> pow2 (- 54) * (real m * pow2 e) + pow2 (- 1075)"
      using float_mul_0_2_error [OF v, of s] by (simp only: m)
    have e2: "is_finite (float_sub (Finite s m e) (Finite s m' e'))
        \<and> \<bar>valof (float_sub (Finite s m e) (Finite s m' e')) + valof (Finite s m' e')
             - valof (Finite s m e)\<bar> \<le> pow2 (- 53) * (real m * pow2 e)"
      by (rule float_sub_error [OF v lo le])
    have "valof (float_sub (Finite s m e) (Finite s m' e'))
        - (valof (Finite s m e) - valof (Finite s m' e'))
        = valof (float_sub (Finite s m e) (Finite s m' e')) + valof (Finite s m' e')
          - valof (Finite s m e)" by simp
    then show ?thesis using e1 e2 by (simp only: c m absc) (simp add: is_finite_def)
  qed
  have eqs: "float_eq x x" if "is_finite x" for x
    using that by (cases x) (simp_all add: is_finite_def)
  show ?thesis using fin eqs by (simp add: d a dec)
qed

text \<open>On the demo request of the client, 1000.0 gives a deduction of 200.0 and 800.0 approved.\<close>

theorem verify_damage_different_images_witness:
  "before_image damage_request \<noteq> after_image damage_request
   \<and> is_float (claim_amount damage_request) \<and> is_finite (claim_amount damage_request)
   \<and> DamageResponse.decision (verify_damage damage_request) = ''deduct_payout''
   \<and> deduction (verify_damage damage_request) = Finite False 7036874417766400 (- 45)
   \<and> DamageResponse.approved_amount (verify_damage damage_request)
       = Finite False 7036874417766400 (- 43)
   \<and> \<bar>valof (Finite False 7036874417766400 (- 45)) - valof float_1000 / 5\<bar>
        \<le> pow2 (- 54) * \<bar>valof float_1000\<bar> + pow2 (- 1075)
   \<and> \<bar>valof (Finite False 7036874417766400 (- 43))
         - (valof float_1000 - valof (Finite False 7036874417766400 (- 45)))\<bar>
        \<le> pow2 (- 53) * \<bar>valof float_1000\<bar>"
proof -
  have h: "before_image damage_request \<noteq> after_image damage_request"
    by (simp add: damage_request_def)
  have c: "claim_amount damage_request = float_1000"
    by (simp add: damage_request_def)
  have f: "is_float (claim_amount damage_request) \<and> is_finite (claim_amount damage_request)"
    by (simp add: c float_1000_def is_float_def is_finite_def)
  have d: "deduction (verify_damage damage_request) = Finite False 7036874417766400 (- 45)"
    and a: "DamageResponse.approved_amount (verify_damage damage_request)
        = Finite False 7036874417766400 (- 43)"
    and dec: "DamageResponse.decision (verify_damage damage_request) = ''deduct_payout''"
    using h by (simp_all add: verify_damage_def Let_def c float_mul_1000 float_sub_1000)
  have "\<bar>valof (Finite False 7036874417766400 (- 45)) - valof float_1000 / 5\<bar>
        \<le> pow2 (- 54) * \<bar>valof float_1000\<bar> + pow2 (- 1075)
      \<and> \<bar>valof (Finite False 7036874417766400 (- 43))
         - (valof float_1000 - valof (Finite False 7036874417766400 (- 45)))\<bar>
        \<le> pow2 (- 53) * \<bar>valof float_1000\<bar>"
    using verify_damage_different_images [OF h] f unfolding d a c by blast
  then show ?thesis using h f d a dec by blast
qed

text \<open>
  C3, as stated, fails: for a claim of 1.89 with different images the deduction is
  \<open>0x1.83126e978d4fep-2\<close>, the approved amount \<open>0x1.83126e978d4fep+0\<close>, and their float
  sum is the float after 1.89, because the subtraction and the addition both round.
\<close>

theorem sum_invariant_counterexample:
  "before_image (claim_of float_1_89) \<noteq> after_image (claim_of float_1_89)
   \<and> deduction (verify_damage (claim_of float_1_89)) = Finite False 6809442636584190 (- 54)
   \<and> DamageResponse.approved_amount (verify_damage (claim_of float_1_89))
       = Finite False 6809442636584190 (- 52)
   \<and> float_add (DamageResponse.approved_amount (verify_damage (claim_of float_1_89)))
         (deduction (verify_damage (claim_of float_1_89))) = Finite False 8511803295730238 (- 52)
   \<and> \<not> float_eq (float_add (DamageResponse.approved_amount (verify_damage (claim_of float_1_89)))
            (deduction (verify_damage (claim_of float_1_89))))
          (claim_amount (claim_of float_1_89))"
proof -
  have d: "deduction (verify_damage (claim_of float_1_89)) = Finite False 6809442636584190 (- 54)"
    by (simp add: verify_damage_def Let_def float_mul_1_89)
  have a: "DamageResponse.approved_amount (verify_damage (claim_of float_1_89))
      = Finite False 6809442636584190 (- 52)"
    by (simp add: verify_damage_def Let_def float_mul_1_89 float_sub_1_89)
  have ne: "\<not> float_eq (Finite False 8511803295730238 (- 52)) float_1_89"
    by (simp add: float_1_89_def scaled_def)
  show ?thesis by (simp only: d a float_add_1_89 claim_of_simps ne simp_thms)
qed

text \<open>
  C3, amended. For every DamageRequest whose claim amount is a float other than NaN: when
  the images are equal, the approved amount plus the deduction is equal to the claim
  amount; and when the claim amount is finite, the approved amount and the deduction are
  finite and their exact sum differs from the claim amount by at most \<open>2^-53\<close> times its
  magnitude, the rounding of the one float subtraction.
\<close>

theorem sum_invariant_within_rounding:
  assumes "is_float (claim_amount msg)" and "claim_amount msg \<noteq> NaN"
  shows "(before_image msg = after_image msg \<longrightarrow>
            float_eq (float_add (DamageResponse.approved_amount (verify_damage msg))
              (deduction (verify_damage msg))) (claim_amount msg))
       \<and> (is_finite (claim_amount msg) \<longrightarrow>
            is_finite (DamageResponse.approved_amount (verify_damage msg))
            \<and> is_finite (deduction (verify_damage msg))
            \<and> \<bar>valof (DamageResponse.approved_amount (verify_damage msg))
                 + valof (deduction (verify_damage msg)) - valof (claim_amount msg)\<bar>
                \<le> pow2 (- 53) * \<bar>valof (claim_amount msg)\<bar>)"
proof (rule conjI; rule impI)
  assume "before_image msg = after_image msg"
  then show "float_eq (float_add (DamageResponse.approved_amount (verify_damage msg))
      (deduction (verify_damage msg))) (claim_amount msg)"
    using assms float_add_zero [of "claim_amount msg"] by (simp add: verify_damage_def)
next
  assume "is_finite (claim_amount msg)"
  then obtain s m e where c: "claim_amount msg = Finite s m e"
    by (cases "claim_amount msg") (simp_all add: is_finite_def)
  have v: "m < 2 ^ 53" "- 1074 \<le> e" "e \<le> 971" using assms(1) c by (simp_all add: is_float_def)
  have absc: "\<bar>valof (Finite s m e)\<bar> = real m * pow2 e"
    by (simp add: valof_def abs_mult)
  show "is_finite (DamageResponse.approved_amount (verify_damage msg))
      \<and> is_finite (deduction (verify_damage msg))
      \<and> \<bar>valof (DamageResponse.approved_amount (verify_damage msg))
           + valof (deduction (verify_damage msg)) - valof (claim_amount msg)\<bar>
          \<le> pow2 (- 53) * \<bar>valof (claim_amount msg)\<bar>"
  proof (cases "before_image msg = after_image msg")
    case True
    have "valof float_zero = 0" by (simp add: float_zero_def valof_def)
    then show ?thesis using True
      by (simp add: verify_damage_def c is_finite_def float_zero_def)
  next
    case False
    obtain m' e' where d: "float_mul (Finite s m e) float_0_2 = Finite s m' e'"
      and lo: "- 1074 \<le> e'" and le: "real m' * pow2 e' \<le> real m * pow2 e"
      using float_mul_0_2_finite [OF v] by blast
    show ?thesis
      using False float_sub_error [OF v lo le, of s]
      by (simp add: verify_damage_def Let_def c d absc is_finite_def)
  qed
qed

theorem sum_invariant_within_rounding_witness:
  "is_float (claim_amount same_images) \<and> claim_amount same_images \<noteq> NaN
   \<and> before_image same_images = after_image same_images
   \<and> float_eq (Finite False 8796093022208000 (- 43)) (Finite False 1000 0)
   \<and> is_float (claim_amount (claim_of float_1_89)) \<and> claim_amount (claim_of float_1_89) \<noteq> NaN
   \<and> is_finite (claim_amount (claim_of float_1_89))
   \<and> \<bar>valof (Finite False 6809442636584190 (- 52)) + valof (Finite False 6809442636584190 (- 54))
        - valof float_1_89\<bar> \<le> pow2 (- 53) * \<bar>valof float_1_89\<bar>"
proof -
  have h1: "is_float (claim_amount same_images)" "claim_amount same_images \<noteq> NaN"
    by (simp_all add: same_images_def float_1000_def is_float_def)
  have e1: "before_image same_images = after_image same_images"
    by (simp add: same_images_def)
  have r1: "DamageResponse.approved_amount (verify_damage same_images) = float_1000"
    "deduction (verify_damage same_images) = float_zero"
    "claim_amount same_images = float_1000"
    by (simp_all add: verify_damage_def same_images_def)
  have h2: "is_float (claim_amount (claim_of float_1_89))"
    "claim_amount (claim_of float_1_89) \<noteq> NaN"
    by (simp_all add: float_1_89_def is_float_def)
  have f2: "is_finite (claim_amount (claim_of float_1_89))"
    by (simp add: float_1_89_def is_finite_def)
  have r2: "deduction (verify_damage (claim_of float_1_89)) = Finite False 6809442636584190 (- 54)"
    "DamageResponse.approved_amount (verify_damage (claim_of float_1_89))
      = Finite False 6809442636584190 (- 52)"
    by (simp_all add: verify_damage_def Let_def float_mul_1_89 float_sub_1_89)
  have "float_eq (Finite False 8796093022208000 (- 43)) (Finite False 1000 0)"
    using sum_invariant_within_rounding [OF h1] e1
    by (simp only: r1 float_add_1000_zero) (simp add: float_1000_def)
  moreover have "\<bar>valof (Finite False 6809442636584190 (- 52))
      + valof (Finite False 6809442636584190 (- 54)) - valof float_1_89\<bar>
      \<le> pow2 (- 53) * \<bar>valof float_1_89\<bar>"
    using sum_invariant_within_rounding [OF h2] f2 by (simp only: r2 claim_of_simps)
  ultimately show ?thesis using h1 e1 h2 f2 by simp
qed

text \<open>
  C10, as stated, fails: minus infinity is a claim amount below zero, and with different
  images its deduction is minus infinity and its approved amount is NaN, which is not
  below or equal to zero.
\<close>

theorem nonpositive_claim_counterexample:
  "float_le (claim_amount (claim_of float_neg_inf)) float_zero
   \<and> before_image (claim_of float_neg_inf) \<noteq> after_image (claim_of float_neg_inf)
   \<and> deduction (verify_damage (claim_of float_neg_inf)) = Infinite True
   \<and> DamageResponse.approved_amount (verify_damage (claim_of float_neg_inf)) = NaN
   \<and> \<not> float_le (DamageResponse.approved_amount (verify_damage (claim_of float_neg_inf))) float_zero"
  by (simp add: verify_damage_def Let_def float_neg_inf_def float_zero_def float_0_2_def
      float_sub_def float_neg_def)

text \<open>
  C10, amended. For every DamageRequest whose claim amount is a finite float below or equal
  to zero, the response comes from the same two branches, with no other outcome: with
  different images the deduction is the float product of the claim amount and 0.2 and the
  approved amount is the float difference of the claim amount and the deduction; the
  deduction and the approved amount are both below or equal to zero.
\<close>

theorem nonpositive_claim:
  assumes "is_float (claim_amount msg)" and "is_finite (claim_amount msg)"
    and "float_le (claim_amount msg) float_zero"
  shows "verify_damage msg =
           (if before_image msg = after_image msg then
              \<lparr> DamageResponse.decision = ''full_payout'',
                DamageResponse.approved_amount = claim_amount msg,
                deduction = float_zero,
                DamageResponse.policy_id = DamageRequest.policy_id msg \<rparr>
            else
              \<lparr> DamageResponse.decision = ''deduct_payout'',
                DamageResponse.approved_amount =
                  float_sub (claim_amount msg) (float_mul (claim_amount msg) float_0_2),
                deduction = float_mul (claim_amount msg) float_0_2,
                DamageResponse.policy_id = DamageRequest.policy_id msg \<rparr>)
       \<and> float_le (deduction (verify_damage msg)) float_zero
       \<and> float_le (DamageResponse.approved_amount (verify_damage msg)) float_zero"
proof -
  obtain s m e where c: "claim_amount msg = Finite s m e"
    using assms(2) by (cases "claim_amount msg") (simp_all add: is_finite_def)
  have v: "m < 2 ^ 53" "- 1074 \<le> e" "e \<le> 971" using assms(1) c by (simp_all add: is_float_def)
  have sm: "s \<or> m = 0" using assms(3) c by (simp add: float_le_zero)
  have z: "float_le float_zero float_zero" by (simp add: float_zero_def)
  have d: "float_le (float_mul (claim_amount msg) float_0_2) float_zero
      \<and> float_le (float_sub (claim_amount msg) (float_mul (claim_amount msg) float_0_2)) float_zero"
  proof (cases "m = 0")
    case True
    then show ?thesis
      by (simp add: c float_0_2_def round_float_def float_sub_def float_neg_def scaled_def
          float_zero_def)
  next
    case False
    then have s: "s" using sm by simp
    obtain m' e' where "float_mul (Finite True m e) float_0_2 = Finite True m' e'"
      and "real m' * pow2 e' \<le> real m * pow2 e"
      using float_mul_0_2_bound [OF False v, of True] by blast
    then show ?thesis using float_sub_nonpositive [of m' e' m e] s
      by (simp add: c float_le_zero)
  qed
  show ?thesis using d z assms(3) by (simp add: verify_damage_def Let_def)
qed

theorem nonpositive_claim_witness:
  "is_float (claim_amount (claim_of (Finite True 1000 0)))
   \<and> is_finite (claim_amount (claim_of (Finite True 1000 0)))
   \<and> float_le (claim_amount (claim_of (Finite True 1000 0))) float_zero
   \<and> deduction (verify_damage (claim_of (Finite True 1000 0))) = Finite True 7036874417766400 (- 45)
   \<and> DamageResponse.approved_amount (verify_damage (claim_of (Finite True 1000 0)))
       = Finite True 7036874417766400 (- 43)
   \<and> float_le (Finite True 7036874417766400 (- 45)) float_zero
   \<and> float_le (Finite True 7036874417766400 (- 43)) float_zero"
proof -
  have h: "is_float (claim_amount (claim_of (Finite True 1000 0)))"
    "is_finite (claim_amount (claim_of (Finite True 1000 0)))"
    "float_le (claim_amount (claim_of (Finite True 1000 0))) float_zero"
    by (simp_all add: is_float_def is_finite_def float_zero_def scaled_def)
  have m: "float_mul (Finite True 1000 0) float_0_2 = Finite True 7036874417766400 (- 45)"
    by (simp add: float_0_2_def round_float_def pack_def Let_def)
  have s: "float_sub (Finite True 1000 0) (Finite True 7036874417766400 (- 45))
      = Finite True 7036874417766400 (- 43)"
    by (simp add: float_sub_def float_neg_def scaled_def round_float_def pack_def Let_def)
  show ?thesis using h nonpositive_claim [OF h] by (simp add: m s float_zero_def scaled_def)
qed

section \<open>The payment processor\<close>

text \<open>
  C4, as stated, fails: a \<^verbatim>\<open>full_payout\<close> request whose approved amount is NaN is paid NaN,
  and the comparison of NaN with itself is false.
\<close>

theorem process_payment_nan_counterexample:
  "PaymentRequest.decision pay_nan = ''full_payout''
   \<and> status (process_payment 123456 pay_nan) = ''completed''
   \<and> paid_amount (process_payment 123456 pay_nan) = NaN
   \<and> \<not> float_eq (paid_amount (process_payment 123456 pay_nan))
          (PaymentRequest.approved_amount pay_nan)"
  by (simp add: pay_nan_def process_payment_def Let_def)

text \<open>
  C4, amended. For every PaymentRequest the payment processor decides on the decision
  alone: \<^verbatim>\<open>full_payout\<close> and \<^verbatim>\<open>deduct_payout\<close> pay the approved amount unchanged, equal to
  it by the comparison of floats exactly when it is not NaN, with status \<^verbatim>\<open>completed\<close>;
  \<^verbatim>\<open>error\<close> pays zero with status \<^verbatim>\<open>failed\<close>; every other decision pays zero with status
  \<^verbatim>\<open>rejected\<close>.
\<close>

theorem process_payment_dispatch:
  "status (process_payment r msg) =
     (if PaymentRequest.decision msg = ''full_payout'' \<or> PaymentRequest.decision msg = ''deduct_payout''
      then ''completed''
      else if PaymentRequest.decision msg = ''error'' then ''failed'' else ''rejected'')
   \<and> paid_amount (process_payment r msg) =
     (if PaymentRequest.decision msg = ''full_payout'' \<or> PaymentRequest.decision msg = ''deduct_payout''
      then PaymentRequest.approved_amount msg
      else float_zero)
   \<and> (if PaymentRequest.decision msg = ''full_payout'' \<or> PaymentRequest.decision msg = ''deduct_payout''
       then float_eq (paid_amount (process_payment r msg)) (PaymentRequest.approved_amount msg)
              = (PaymentRequest.approved_amount msg \<noteq> NaN)
       else float_eq (paid_amount (process_payment r msg)) float_zero)"
  by (simp add: process_payment_def Let_def float_eq_self) (simp add: float_zero_def)

theorem process_payment_dispatch_witness:
  "status (process_payment 123456 (pay ''full_payout'')) = ''completed''
   \<and> paid_amount (process_payment 123456 (pay ''full_payout'')) = float_1000
   \<and> float_eq (paid_amount (process_payment 123456 (pay ''full_payout''))) float_1000
   \<and> status (process_payment 123456 (pay ''deduct_payout'')) = ''completed''
   \<and> paid_amount (process_payment 123456 (pay ''deduct_payout'')) = float_1000
   \<and> float_eq (paid_amount (process_payment 123456 (pay ''deduct_payout''))) float_1000
   \<and> status (process_payment 123456 (pay ''error'')) = ''failed''
   \<and> float_eq (paid_amount (process_payment 123456 (pay ''error''))) float_zero
   \<and> status (process_payment 123456 (pay ''refund'')) = ''rejected''
   \<and> float_eq (paid_amount (process_payment 123456 (pay ''refund''))) float_zero"
  using process_payment_dispatch [of 123456 "pay ''full_payout''"]
    process_payment_dispatch [of 123456 "pay ''deduct_payout''"]
    process_payment_dispatch [of 123456 "pay ''error''"]
    process_payment_dispatch [of 123456 "pay ''refund''"]
  by (simp add: pay_def process_payment_def Let_def float_1000_def float_zero_def scaled_def)

subsection \<open>Decimal numerals\<close>

lemma digit_char_is_digit: "d < 10 \<Longrightarrow> is_digit (digit_char d)"
  by (simp add: is_digit_def digit_char_def)

lemma digit_val_digit_char: "d < 10 \<Longrightarrow> digit_val (digit_char d) = d"
  by (simp add: digit_val_def digit_char_def)

lemma str_nat_digits: "list_all is_digit (str_nat n)"
proof (induction n rule: str_nat.induct)
  case (1 n)
  show ?case
  proof (cases "n < 10")
    case True
    then show ?thesis by (subst str_nat.simps) (simp add: digit_char_is_digit)
  next
    case False
    then have "list_all is_digit (str_nat (n div 10))" using 1 by simp
    moreover have "is_digit (digit_char (n mod 10))" by (simp add: digit_char_is_digit)
    ultimately show ?thesis using False by (subst str_nat.simps) simp
  qed
qed

lemma parse_nat_snoc: "parse_nat (cs @ [c]) = 10 * parse_nat cs + digit_val c"
  by (simp add: parse_nat_def)

lemma parse_nat_str_nat: "parse_nat (str_nat n) = n"
proof (induction n rule: str_nat.induct)
  case (1 n)
  show ?case
  proof (cases "n < 10")
    case True
    then show ?thesis
      by (subst str_nat.simps) (simp add: parse_nat_def digit_val_digit_char)
  next
    case False
    then have "parse_nat (str_nat (n div 10)) = n div 10" using 1 by simp
    then show ?thesis using False
      by (subst str_nat.simps) (simp add: parse_nat_snoc digit_val_digit_char)
  qed
qed

lemma length_str_nat: "10 ^ k \<le> n \<Longrightarrow> n < 10 ^ Suc k \<Longrightarrow> length (str_nat n) = Suc k"
proof (induction k arbitrary: n)
  case 0
  then show ?case by (subst str_nat.simps) simp
next
  case (Suc k)
  have "10 ^ k \<le> n div 10" using Suc.prems(1) by (simp add: less_eq_div_iff_mult_less_eq)
  moreover have "n div 10 < 10 ^ Suc k" using Suc.prems(2) by (simp add: div_less_iff_less_mult mult.commute)
  ultimately have "length (str_nat (n div 10)) = Suc k" by (rule Suc.IH)
  moreover have "\<not> n < 10"
  proof -
    have "(10::nat) \<le> 10 ^ Suc k" by simp
    then show ?thesis using Suc.prems(1) by linarith
  qed
  ultimately show ?case by (subst str_nat.simps) simp
qed

text \<open>
  C5. For every PaymentRequest and every integer that \<^verbatim>\<open>random.randint(100000, 999999)\<close>
  may return, the transaction id is the prefix \<^verbatim>\<open>TXN_\<close> followed by six decimal digits,
  and the integer they denote is the random one, between 100000 and 999999.
\<close>

theorem transaction_id_format:
  assumes "randint 100000 999999 r"
  shows "transaction_id (process_payment r msg) = ''TXN_'' @ str_int r
       \<and> length (str_int r) = 6
       \<and> list_all is_digit (str_int r)
       \<and> int (parse_nat (str_int r)) = r
       \<and> 100000 \<le> parse_nat (str_int r) \<and> parse_nat (str_int r) \<le> 999999"
proof -
  from assms have r: "100000 \<le> r" "r \<le> 999999" by (simp_all add: randint_def)
  then have s: "str_int r = str_nat (nat r)" by (simp add: str_int_def)
  have "10 ^ 5 \<le> nat r" "nat r < 10 ^ Suc 5" using r by simp_all
  then have "length (str_nat (nat r)) = Suc 5" by (rule length_str_nat)
  then have len: "length (str_int r) = 6" using s by simp
  have p: "parse_nat (str_int r) = nat r" using s by (simp add: parse_nat_str_nat)
  have "transaction_id (process_payment r msg) = ''TXN_'' @ str_int r"
    by (simp add: process_payment_def Let_def split: prod.splits)
  then show ?thesis using len p r s str_nat_digits [of "nat r"] by auto
qed

theorem transaction_id_format_witness:
  "randint 100000 999999 123456
   \<and> transaction_id (process_payment 123456 (pay ''full_payout'')) = ''TXN_123456''"
proof -
  have h: "randint 100000 999999 123456" by (simp add: randint_def)
  have "str_int 123456 = ''123456''"
    by (simp add: str_int_def str_nat.simps digit_char_def char_of_eq_iff)
  then show ?thesis using h transaction_id_format [OF h, of "pay ''full_payout''"] by simp
qed

section \<open>The correlation key\<close>

text \<open>
  C6. The policy id goes unchanged through the four messages: the DamageResponse has the
  policy id of the DamageRequest, the PaymentRequest that the client builds and sends has
  the policy id of the DamageResponse, and the PaymentResponse has the policy id of the
  PaymentRequest.
\<close>

theorem policy_id_preserved:
  "DamageResponse.policy_id (verify_damage req) = DamageRequest.policy_id req
   \<and> snd (handle_damage_response env st resp)
       = [Send_PaymentRequest (address (payment_agent env)) (payment_request resp)]
   \<and> PaymentRequest.policy_id (payment_request resp) = DamageResponse.policy_id resp
   \<and> PaymentResponse.policy_id (process_payment r preq) = PaymentRequest.policy_id preq
   \<and> PaymentResponse.policy_id (process_payment r (payment_request (verify_damage req)))
       = DamageRequest.policy_id req"
  by (simp add: verify_damage_def handle_damage_response_def payment_request_def
      process_payment_def Let_def split: prod.splits)

section \<open>The interval trigger of the client\<close>

text \<open>
  C7, as stated, fails: after a first trigger the workflow of the specification is in
  \<open>AwaitingDamage\<close>, not \<open>Idle\<close>, and a second trigger sends a DamageRequest again.
\<close>

theorem interval_trigger_counterexample:
  "spec_workflow_after [Interval] = AwaitingDamage
   \<and> AwaitingDamage \<noteq> Idle
   \<and> list_ex is_Send_DamageRequest
        (snd (client_handle Map.empty (client_after Map.empty [Interval]) Interval))"
  by (simp add: spec_workflow_after_def client_after_def initiate_deposit_refund_def)

text \<open>
  C7, amended. The interval trigger sends the DamageRequest with the hardcoded demo values
  to the damage assessor at every firing, after any history of events, and leaves the two
  variables of the client as they are.
\<close>

theorem interval_trigger_always_sends:
  "initiate_deposit_refund env st =
     (st, [Send_DamageRequest (Address_of_seed ''damage_verifier_seed_12345_unique'')
             \<lparr> before_image = ''https://example.com/before.jpg'',
               after_image = ''https://example.com/after.jpg'',
               claim_amount = Finite False 1000 0,
               DamageRequest.policy_id = ''POL-12345'' \<rparr>])
   \<and> list_ex is_Send_DamageRequest (snd (client_handle env (client_after env evs) Interval))
   \<and> fst (client_handle env (client_after env evs) Interval) = client_after env evs"
  by (simp add: initiate_deposit_refund_def address_def damage_agent_def damage_request_def
      float_1000_def)

section \<open>The environment\<close>

text \<open>
  C8, as stated, fails: in an environment that sets \<^verbatim>\<open>AGENT_SEED\<close>, and that the
  supervision script accepts, the agents are not constructed with its value as seed.
\<close>

theorem agent_seed_counterexample:
  "getenv [''AGENT_SEED'' \<mapsto> ''my secret seed''] ''AGENT_SEED'' = Some ''my secret seed''
   \<and> snd (check_env_vars [''AGENT_SEED'' \<mapsto> ''my secret seed''])
   \<and> seed (damage_agent [''AGENT_SEED'' \<mapsto> ''my secret seed'']) \<noteq> ''my secret seed''
   \<and> seed (payment_agent [''AGENT_SEED'' \<mapsto> ''my secret seed'']) \<noteq> ''my secret seed''"
  by (simp add: getenv_def check_env_vars_def not_set_def damage_agent_def payment_agent_def)

text \<open>
  C8, amended. Every agent is constructed with its own hardcoded seed, whatever the
  environment; the supervision script only checks that \<^verbatim>\<open>AGENT_SEED\<close> is set to a
  string that is not empty.
\<close>

theorem agent_seeds_hardcoded:
  "seed (damage_agent env) = ''damage_verifier_seed_12345_unique''
   \<and> seed (payment_agent env) = ''payment_processor_seed_67890_unique''
   \<and> seed (client_agent env) = ''client_seed_phrase_abcde_unique''
   \<and> snd (check_env_vars env) = (case getenv env ''AGENT_SEED'' of None \<Rightarrow> False | Some v \<Rightarrow> v \<noteq> [])"
  by (simp add: damage_agent_def payment_agent_def client_agent_def check_env_vars_def
      not_set_def split: option.splits)

text \<open>
  C9. If \<^verbatim>\<open>AGENT_SEED\<close> is unset, the supervision script prints its banner, reports the
  missing variable and exits with status 1; it asks for no subprocess.
\<close>

theorem missing_seed_exits_before_launch:
  assumes "getenv env ''AGENT_SEED'' = None"
  shows "main env popen =
           ([Print ''Working Security Deposit Refund System'',
             Print (replicate 45 CHR ''=''),
             Print ''Missing environment variables: AGENT_SEED'',
             Print ''Please set them in your .env file''], Exit 1)
       \<and> \<not> list_ex is_Popen (fst (main env popen))"
  using assms by (simp add: main_def check_env_vars_def not_set_def)

theorem missing_seed_exits_before_launch_witness:
  "getenv Map.empty ''AGENT_SEED'' = None
   \<and> snd (main Map.empty (\<lambda>script. Inr 4321)) = Exit 1
   \<and> \<not> list_ex is_Popen (fst (main Map.empty (\<lambda>script. Inr 4321)))"
proof -
  have h: "getenv Map.empty ''AGENT_SEED'' = None" by (simp add: getenv_def)
  show ?thesis
    using h missing_seed_exits_before_launch [OF h, of "\<lambda>script. Inr 4321"] by simp
qed

end
